theory Spec2Isabelle
  imports Main "HOL-Library.Sublist"
begin

section \<open>JavaScript values and strings\<close>

text \<open>
  The helpers in \<^verbatim>\<open>api/server/controllers/assistants/helpers.js\<close> read loosely typed
  request fields.  A field that may hold any primitive is a \<open>jsval\<close>; numbers are the
  integers (version numbers and page limits), strings are ASCII character lists, so that
  \<open>length\<close> agrees with JavaScript's \<^verbatim>\<open>.length\<close>.
\<close>

datatype jsval = JUndefined | JNull | JBool bool | JNum int | JStr string

text \<open>Exceptions: \<^verbatim>\<open>new Error(msg)\<close> thrown by the helpers, and the engine's \<^verbatim>\<open>TypeError\<close>.\<close>

datatype js_error = Error string | TypeError string

text \<open>Truthiness, as tested by \<^verbatim>\<open>!x\<close> and \<^verbatim>\<open>x && y\<close>.\<close>

fun truthy :: "jsval \<Rightarrow> bool" where
  "truthy JUndefined = False"
| "truthy JNull = False"
| "truthy (JBool b) = b"
| "truthy (JNum n) = (n \<noteq> 0)"
| "truthy (JStr s) = (s \<noteq> [])"

text \<open>The nullish coalescing operator \<^verbatim>\<open>a ?? b\<close>.\<close>

fun nullish_coalesce :: "jsval \<Rightarrow> jsval \<Rightarrow> jsval" where
  "nullish_coalesce JUndefined b = b"
| "nullish_coalesce JNull b = b"
| "nullish_coalesce a b = a"

text \<open>Decimal digits of a number, as a template literal prints an integer.\<close>

definition digit_char :: "nat \<Rightarrow> char" where
  "digit_char n = ''0123456789'' ! (n mod 10)"

function decimal :: "nat \<Rightarrow> string" where
  "decimal n = (if 10 \<le> n then decimal (n div 10) @ [digit_char n] else [digit_char n])"
  by pat_completeness auto
termination
  by (relation "measure (\<lambda>n. n)") auto

definition decimal_int :: "int \<Rightarrow> string" where
  "decimal_int i = (if 0 \<le> i then decimal (nat i) else CHR ''-'' # decimal (nat (- i)))"

text \<open>String conversion inside a template literal \<^verbatim>\<open>`v${x}`\<close>.\<close>

fun toString :: "jsval \<Rightarrow> string" where
  "toString JUndefined = ''undefined''"
| "toString JNull = ''null''"
| "toString (JBool b) = (if b then ''true'' else ''false'')"
| "toString (JNum n) = decimal_int n"
| "toString (JStr s) = s"

text \<open>\<^verbatim>\<open>s.startsWith(p)\<close>.\<close>

definition startsWith :: "string \<Rightarrow> string \<Rightarrow> bool" where
  "startsWith s p = prefix p s"

text \<open>
  \<^verbatim>\<open>s.lastIndexOf(p)\<close>: the greatest position at which \<open>p\<close> occurs in \<open>s\<close>, or \<open>-1\<close>.
  The search runs from position \<open>k\<close> downwards.
\<close>

fun lastIndexOf_from :: "string \<Rightarrow> string \<Rightarrow> nat \<Rightarrow> int" where
  "lastIndexOf_from s p 0 = (if prefix p s then 0 else - 1)"
| "lastIndexOf_from s p (Suc k) =
     (if prefix p (drop (Suc k) s) then int (Suc k) else lastIndexOf_from s p k)"

definition lastIndexOf :: "string \<Rightarrow> string \<Rightarrow> int" where
  "lastIndexOf s p = lastIndexOf_from s p (length s)"

text \<open>\<^verbatim>\<open>s.substring(b, e)\<close> for \<open>b \<le> e\<close>; both ends are clamped to the length of \<open>s\<close>.\<close>

definition substring :: "string \<Rightarrow> nat \<Rightarrow> nat \<Rightarrow> string" where
  "substring s b e = take (e - b) (drop b s)"

text \<open>\<^verbatim>\<open>!version\<close> for a value that is a string or \<^verbatim>\<open>null\<close>.\<close>

fun falsy_string :: "string option \<Rightarrow> bool" where
  "falsy_string None = True"
| "falsy_string (Some s) = (s = [])"

section \<open>Requests, configuration and the vendor interface\<close>

text \<open>
  The fields of the Express request that the helpers read or write.  \<open>body\<close> and
  \<open>query\<close> are objects, as the parsers of the application leave them; a field that
  is absent is \<^verbatim>\<open>undefined\<close>.  \<open>azureOpenAI\<close> is
  \<^verbatim>\<open>req.app.locals[EModelEndpoint.azureOpenAI]\<close>.  An endpoint name is a string or
  \<^verbatim>\<open>undefined\<close> (\<open>None\<close>).
\<close>

record req_body =
  body_version :: jsval
  body_endpoint :: "string option"
  body_model :: "string option"

record req_query =
  query_limit :: jsval
  query_order :: jsval
  query_after :: jsval
  query_before :: jsval
  query_endpoint :: "string option"

text \<open>One entry of a group's \<open>models\<close> table: the deployment it maps to, when it names one.\<close>

record TAzureModelConfig =
  config_deploymentName :: "string option"

text \<open>
  A deployment group.  \<open>models\<close> lists the table in the order of \<^verbatim>\<open>Object.entries\<close>.
\<close>

record TAzureGroup =
  deploymentName :: "string option"
  models :: "(string \<times> TAzureModelConfig) list"

record TAzureConfig =
  groupMap :: "string \<rightharpoonup> TAzureGroup"
  assistantGroups :: "string list"

record request =
  baseUrl :: string
  body :: req_body
  query :: req_query
  azureOpenAI :: "TAzureConfig option"

text \<open>The query object handed to the vendor's list call.\<close>

record list_query =
  limit :: jsval
  order :: jsval
  after :: jsval
  before :: jsval

text \<open>
  An assistant record is vendor defined: it has an \<open>id\<close> and a \<open>model\<close>, and whatever
  else the vendor sends is the extension part of the record.
\<close>

record assistant =
  assistant_id :: string
  model :: string

record 'a AssistantListResponse =
  first_id :: "string option"
  last_id :: "string option"
  object :: string
  has_more :: bool
  data :: "'a assistant_scheme list"

text \<open>What \<^verbatim>\<open>openai.beta.assistants.list\<close> resolves to: a page with its records and raw body.\<close>

record 'a page =
  page_data :: "'a assistant_scheme list"
  page_body :: "'a AssistantListResponse option"

text \<open>The object a client initializer returns; only its listing capability is used here.\<close>

record 'a client =
  assistants_list :: "list_query \<Rightarrow> js_error + 'a page"

record endpoint_config =
  version :: jsval

text \<open>
  Everything the helpers import.  The two endpoint names and the table
  \<open>defaultAssistantsVersion\<close> come from the data-provider package, the two initializers
  from the endpoint services; \<open>cachedEndpointsConfig\<close> is what
  \<^verbatim>\<open>cache.get(CacheKeys.ENDPOINT_CONFIG)\<close> resolves to.  The response object \<^verbatim>\<open>res\<close>
  is only forwarded to the initializers and is part of them here.  \<open>settle_order\<close> is
  the part of the scheduler and the network: for calls that run side by side, the
  positions of the calls in the order in which they settle.
\<close>

record ('a, 'o) env =
  assistants :: string
  azureAssistants :: string
  defaultAssistantsVersion :: "string \<rightharpoonup> jsval"
  cachedEndpointsConfig :: "(string \<rightharpoonup> endpoint_config) option"
  initializeClient :: "request \<Rightarrow> string \<Rightarrow> 'o option \<Rightarrow> bool option \<Rightarrow> js_error + 'a client"
  initAzureClient :: "request \<Rightarrow> string \<Rightarrow> 'o option \<Rightarrow> bool option \<Rightarrow> js_error + 'a client"
  settle_order :: "nat list"

text \<open>
  The effects a call has on the outside: a read of the configuration cache, a call of
  the direct or of the cloud-vendor initializer (with the version and the
  \<^verbatim>\<open>req.body.model\<close> it sees), a vendor list call with its query.  The cache read and the
  two collaborators are taken to answer; what an initializer or a list call answers may
  be an error.
\<close>

datatype event =
  CacheGet
| InitializeClient string "string option"
| InitAzureClient string "string option"
| AssistantsList list_query

text \<open>The vendor list calls among the effects.\<close>

fun is_AssistantsList :: "event \<Rightarrow> bool" where
  "is_AssistantsList (AssistantsList q) = True"
| "is_AssistantsList e = False"

section \<open>The version resolver\<close>

text \<open>\<^verbatim>\<open>!endpoint\<close> is false exactly for a non-empty string.\<close>

fun truthy_endpoint :: "string option \<Rightarrow> bool" where
  "truthy_endpoint None = False"
| "truthy_endpoint (Some e) = (e \<noteq> [])"

text \<open>\<^verbatim>\<open>cachedEndpointsConfig?.[endpoint]?.version\<close>\<close>

definition cached_version :: "('a, 'o) env \<Rightarrow> string \<Rightarrow> jsval" where
  "cached_version env endpoint =
     (case cachedEndpointsConfig env of
        None \<Rightarrow> JUndefined
      | Some config \<Rightarrow> (case config endpoint of None \<Rightarrow> JUndefined | Some c \<Rightarrow> version c))"

text \<open>\<^verbatim>\<open>defaultAssistantsVersion[endpoint]\<close>\<close>

definition default_version :: "('a, 'o) env \<Rightarrow> string \<Rightarrow> jsval" where
  "default_version env endpoint =
     (case defaultAssistantsVersion env endpoint of None \<Rightarrow> JUndefined | Some v \<Rightarrow> v)"

text \<open>
  \<open>getCurrentVersion\<close> returns the effects it had and either the error it threw or the
  version.  When \<open>version\<close> is still \<^verbatim>\<open>null\<close> at the final check, \<^verbatim>\<open>version?.startsWith\<close>
  is \<^verbatim>\<open>undefined\<close>, its negation is true, and \<^verbatim>\<open>version.length\<close> raises a \<^verbatim>\<open>TypeError\<close>.
\<close>

definition getCurrentVersion ::
  "('a, 'o) env \<Rightarrow> request \<Rightarrow> string option \<Rightarrow> event list \<times> (js_error + string)" where
  "getCurrentVersion env req endpoint =
     (let index = lastIndexOf (baseUrl req) ''/v'';
          version = (if index \<noteq> - 1
                     then Some (substring (baseUrl req) (nat (index + 1)) (nat (index + 3)))
                     else None);
          version = (if falsy_string version \<and> truthy (body_version (body req))
                     then Some (''v'' @ toString (body_version (body req)))
                     else version);
          lookup = (falsy_string version \<and> truthy_endpoint endpoint);
          version = (case (lookup, endpoint) of
                       (True, Some e) \<Rightarrow>
                         Some (''v'' @ toString (nullish_coalesce
                           (cached_version env e) (default_version env e)))
                     | _ \<Rightarrow> version)
      in (if lookup then [CacheGet] else [],
          case version of
            None \<Rightarrow> Inl (TypeError ''Cannot read properties of null (reading length)'')
          | Some v \<Rightarrow>
              if \<not> startsWith v ''v'' \<and> length v \<noteq> 2
              then Inl (Error (''['' @ baseUrl req @ ''] Invalid version: '' @ v))
              else Inr v))"

section \<open>The client resolver\<close>

text \<open>
  An \<^verbatim>\<open>async\<close> function runs synchronously up to its first \<^verbatim>\<open>await\<close> and returns a promise;
  the rest runs when the promise is awaited.  \<open>getOpenAIClient\<close> stops at
  \<^verbatim>\<open>await getCurrentVersion(req, endpoint)\<close>: by then the endpoint is chosen and the version
  resolver has started, reading the cache if it has to.  A \<open>pending\<close> call holds the
  endpoint and the outcome the version resolver comes to once the cache has answered.
\<close>

type_synonym pending = "string option \<times> (js_error + string)"

text \<open>\<^verbatim>\<open>a ?? b\<close> on endpoint names.\<close>

fun coalesce :: "string option \<Rightarrow> string option \<Rightarrow> string option" where
  "coalesce (Some e) b = Some e"
| "coalesce None b = b"

definition getOpenAIClient_begin ::
  "('a, 'o) env \<Rightarrow> request \<Rightarrow> string option \<Rightarrow> event list \<times> pending" where
  "getOpenAIClient_begin env req overrideEndpoint =
     (let endpoint = coalesce overrideEndpoint
                       (coalesce (body_endpoint (body req)) (query_endpoint (query req)))
      in case getCurrentVersion env req endpoint of (evs, v) \<Rightarrow> (evs, (endpoint, v)))"

text \<open>
  After the version has arrived: the endpoint check and the dispatch.  The initializer
  receives the request as it is at that moment.  An unknown endpoint leaves \<^verbatim>\<open>result\<close>
  undefined (\<open>None\<close>).
\<close>

definition getOpenAIClient_resume ::
  "('a, 'o) env \<Rightarrow> request \<Rightarrow> 'o option \<Rightarrow> bool option \<Rightarrow> pending \<Rightarrow>
     event list \<times> (js_error + 'a client option)" where
  "getOpenAIClient_resume env req endpointOption initAppClient p =
     (case p of
        (endpoint, Inl e) \<Rightarrow> ([], Inl e)
      | (endpoint, Inr v) \<Rightarrow>
          if \<not> truthy_endpoint endpoint
          then ([], Inl (Error (''['' @ baseUrl req @ ''] Endpoint is required'')))
          else if endpoint = Some (assistants env)
          then ([InitializeClient v (body_model (body req))],
                case initializeClient env req v endpointOption initAppClient of
                  Inl e \<Rightarrow> Inl e
                | Inr c \<Rightarrow> Inr (Some c))
          else if endpoint = Some (azureAssistants env)
          then ([InitAzureClient v (body_model (body req))],
                case initAzureClient env req v endpointOption initAppClient of
                  Inl e \<Rightarrow> Inl e
                | Inr c \<Rightarrow> Inr (Some c))
          else ([], Inr None))"

definition getOpenAIClient ::
  "('a, 'o) env \<Rightarrow> request \<Rightarrow> 'o option \<Rightarrow> bool option \<Rightarrow> string option \<Rightarrow>
     event list \<times> (js_error + 'a client option)" where
  "getOpenAIClient env req endpointOption initAppClient overrideEndpoint =
     (case getOpenAIClient_begin env req overrideEndpoint of
        (evs, p) \<Rightarrow>
          (case getOpenAIClient_resume env req endpointOption initAppClient p of
             (evs', r) \<Rightarrow> (evs @ evs', r)))"

section \<open>The direct assistant lister\<close>

text \<open>
  \<open>listAssistants\<close> passes \<^verbatim>\<open>{ req, res, version }\<close> to \<open>getOpenAIClient\<close>, which takes
  neither an override nor the \<open>version\<close> from it.  Destructuring \<^verbatim>\<open>{ openai }\<close> from an
  undefined result raises a \<^verbatim>\<open>TypeError\<close>.
\<close>

definition listAssistants_begin ::
  "('a, 'o) env \<Rightarrow> request \<Rightarrow> event list \<times> pending" where
  "listAssistants_begin env req = getOpenAIClient_begin env req None"

definition listAssistants_resume ::
  "('a, 'o) env \<Rightarrow> request \<Rightarrow> list_query \<Rightarrow> pending \<Rightarrow> event list \<times> (js_error + 'a page)" where
  "listAssistants_resume env req q p =
     (case getOpenAIClient_resume env req None None p of
        (evs, Inl e) \<Rightarrow> (evs, Inl e)
      | (evs, Inr None) \<Rightarrow>
          (evs, Inl (TypeError ''Cannot destructure property openai of undefined''))
      | (evs, Inr (Some openai)) \<Rightarrow> (evs @ [AssistantsList q], assistants_list openai q))"

definition listAssistants ::
  "('a, 'o) env \<Rightarrow> request \<Rightarrow> string \<Rightarrow> list_query \<Rightarrow> event list \<times> (js_error + 'a page)" where
  "listAssistants env req v q =
     (case listAssistants_begin env req of
        (evs, p) \<Rightarrow>
          (case listAssistants_resume env req q p of (evs', r) \<Rightarrow> (evs @ evs', r)))"

section \<open>The multi-deployment lister\<close>

text \<open>The three arrays the loop fills in step.\<close>

record fanout =
  groups :: "TAzureGroup list"
  groupModelTuples :: "(string \<times> TAzureModelConfig) list list"
  promises :: "pending list"

text \<open>
  The \<^verbatim>\<open>for ... of assistantGroups\<close> loop.  \<^verbatim>\<open>Object.entries(group?.models)\<close> raises when
  the group is missing from \<open>groupMap\<close>, \<^verbatim>\<open>currentModelTuples[0][0]\<close> when the group has
  no model.  Each round writes \<^verbatim>\<open>req.body.model\<close> and starts one \<open>listAssistants\<close> call,
  which is not awaited here.  When a round throws, the calls started before it are
  abandoned and only what they did so far is among the effects.
\<close>

fun for_assistantGroups ::
  "('a, 'o) env \<Rightarrow> (string \<rightharpoonup> TAzureGroup) \<Rightarrow> string list \<Rightarrow> request \<Rightarrow> fanout \<Rightarrow>
     event list \<times> (js_error + request \<times> fanout)" where
  "for_assistantGroups env gm [] req f = ([], Inr (req, f))"
| "for_assistantGroups env gm (groupName # rest) req f =
     (case gm groupName of
        None \<Rightarrow> ([], Inl (TypeError ''Cannot convert undefined or null to object''))
      | Some grp \<Rightarrow>
          (case models grp of
             [] \<Rightarrow> ([], Inl (TypeError ''Cannot read properties of undefined (reading 0)''))
           | (firstModel, c) # ms \<Rightarrow>
               (let req' = req\<lparr>body := (body req)\<lparr>body_model := Some firstModel\<rparr>\<rparr>
                in case listAssistants_begin env req' of
                     (evs, p) \<Rightarrow>
                       (case for_assistantGroups env gm rest req'
                               \<lparr>groups = groups f @ [grp],
                                groupModelTuples = groupModelTuples f @ [models grp],
                                promises = promises f @ [p]\<rparr> of
                          (evs', r) \<Rightarrow> (evs @ evs', r)))))"

text \<open>\<^verbatim>\<open>xs[i]\<close>, undefined out of range.\<close>

definition at_index :: "'b list \<Rightarrow> nat \<Rightarrow> 'b option" where
  "at_index xs i = (if i < length xs then Some (xs ! i) else None)"

text \<open>
  Between the loop and the return lies \<^verbatim>\<open>await Promise.all(promises)\<close>.  None of the
  started calls has gone beyond \<^verbatim>\<open>await getCurrentVersion(req, endpoint)\<close>; their
  continuations are queued in the order in which the calls were started, and they run in
  two rounds, on the request as the loop left it.

  In the first round every call takes up \<open>getOpenAIClient\<close> where it stopped: the
  endpoint check and the call of its initializer, which it awaits.  No call lists before
  every call has had this turn.
\<close>

fun resume_clients ::
  "('a, 'o) env \<Rightarrow> request \<Rightarrow> pending list \<Rightarrow>
     event list \<times> (js_error + 'a client option) list" where
  "resume_clients env req [] = ([], [])"
| "resume_clients env req (p # ps) =
     (case getOpenAIClient_resume env req None None p of
        (evs, c) \<Rightarrow>
          (case resume_clients env req ps of (evs', cs) \<Rightarrow> (evs @ evs', c # cs)))"

text \<open>
  In the second round every call takes up \<open>listAssistants\<close> with what
  \<open>getOpenAIClient\<close> came to: a rejection is passed on, destructuring \<^verbatim>\<open>{ openai }\<close> from
  an undefined result raises a \<^verbatim>\<open>TypeError\<close>, and a client is asked for its list.  The
  list calls all carry the same query, so their order among themselves does not show.
\<close>

definition list_with ::
  "list_query \<Rightarrow> js_error + 'a client option \<Rightarrow> event list \<times> (js_error + 'a page)" where
  "list_with q c =
     (case c of
        Inl e \<Rightarrow> ([], Inl e)
      | Inr None \<Rightarrow> ([], Inl (TypeError ''Cannot destructure property openai of undefined''))
      | Inr (Some openai) \<Rightarrow> ([AssistantsList q], assistants_list openai q))"

fun resume_lists ::
  "list_query \<Rightarrow> (js_error + 'a client option) list \<Rightarrow>
     event list \<times> (js_error + 'a page) list" where
  "resume_lists q [] = ([], [])"
| "resume_lists q (c # cs) =
     (case list_with q c of
        (evs, r) \<Rightarrow> (case resume_lists q cs of (evs', rs) \<Rightarrow> (evs @ evs', r # rs)))"

text \<open>
  \<^verbatim>\<open>Promise.all\<close> rejects with the rejection that comes first in time, and resolves to
  the values in the order of the promises when there is none.  Time is \<open>settle_order\<close>;
  a call that it does not list settles after those it lists, in the order of the
  promises.
\<close>

fun rejection_at :: "(js_error + 'b) list \<Rightarrow> nat \<Rightarrow> js_error option" where
  "rejection_at rs i =
     (case at_index rs i of
        None \<Rightarrow> None
      | Some (Inl e) \<Rightarrow> Some e
      | Some (Inr x) \<Rightarrow> None)"

definition first_rejection :: "nat list \<Rightarrow> (js_error + 'b) list \<Rightarrow> js_error option" where
  "first_rejection ord rs =
     (case find (\<lambda>i. rejection_at rs i \<noteq> None) (ord @ [0..<length rs]) of
        None \<Rightarrow> None
      | Some i \<Rightarrow> rejection_at rs i)"

fun resolved_values :: "(js_error + 'b) list \<Rightarrow> 'b list" where
  "resolved_values [] = []"
| "resolved_values (Inl e # rs) = resolved_values rs"
| "resolved_values (Inr x # rs) = x # resolved_values rs"

definition Promise_all ::
  "('a, 'o) env \<Rightarrow> request \<Rightarrow> list_query \<Rightarrow> pending list \<Rightarrow>
     event list \<times> (js_error + 'a page list)" where
  "Promise_all env req q ps =
     (case resume_clients env req ps of
        (evs, cs) \<Rightarrow>
          (case resume_lists q cs of
             (evs', rs) \<Rightarrow>
               (evs @ evs',
                case first_rejection (settle_order env) rs of
                  Some e \<Rightarrow> Inl e
                | None \<Rightarrow> Inr (resolved_values rs))))"

text \<open>The inner \<^verbatim>\<open>for (const [model, modelConfig] of currentModelTuples)\<close> with its early return.\<close>

fun matching_model :: "(string \<times> TAzureModelConfig) list \<Rightarrow> string \<Rightarrow> string option" where
  "matching_model [] d = None"
| "matching_model ((m, modelConfig) # rest) d =
     (if config_deploymentName modelConfig = Some d then Some m else matching_model rest d)"

text \<open>The callback of \<^verbatim>\<open>res.data.map\<close> for the result at index \<open>i\<close>.\<close>

definition remap ::
  "TAzureGroup list \<Rightarrow> (string \<times> TAzureModelConfig) list list \<Rightarrow> nat \<Rightarrow>
     'a assistant_scheme \<Rightarrow> js_error + 'a assistant_scheme" where
  "remap gs tuples i assistant =
     (case at_index tuples i of
        None \<Rightarrow> Inl (TypeError ''Cannot read properties of undefined (reading 0)'')
      | Some [] \<Rightarrow> Inl (TypeError ''Cannot read properties of undefined (reading 0)'')
      | Some ((firstModel, c) # ms) \<Rightarrow>
          (case at_index gs i of
             None \<Rightarrow> Inl (TypeError ''Cannot read properties of undefined (reading deploymentName)'')
           | Some currentGroup \<Rightarrow>
               if deploymentName currentGroup = Some (model assistant)
               then Inr (assistant\<lparr>model := firstModel\<rparr>)
               else (case matching_model ((firstModel, c) # ms) (model assistant) of
                       Some m \<Rightarrow> Inr (assistant\<lparr>model := m\<rparr>)
                     | None \<Rightarrow> Inr (assistant\<lparr>model := firstModel\<rparr>))))"

text \<open>\<^verbatim>\<open>Array.prototype.map\<close> with a callback that may throw.\<close>

fun map_throwing :: "('b \<Rightarrow> js_error + 'c) \<Rightarrow> 'b list \<Rightarrow> js_error + 'c list" where
  "map_throwing g [] = Inr []"
| "map_throwing g (x # xs) =
     (case g x of
        Inl e \<Rightarrow> Inl e
      | Inr y \<Rightarrow> (case map_throwing g xs of Inl e \<Rightarrow> Inl e | Inr ys \<Rightarrow> Inr (y # ys)))"

text \<open>\<^verbatim>\<open>Array.prototype.flatMap\<close>, the callback receiving the element and its index.\<close>

fun flatMap_from :: "('b \<Rightarrow> nat \<Rightarrow> js_error + 'c list) \<Rightarrow> 'b list \<Rightarrow> nat \<Rightarrow> js_error + 'c list" where
  "flatMap_from g [] i = Inr []"
| "flatMap_from g (x # xs) i =
     (case g x i of
        Inl e \<Rightarrow> Inl e
      | Inr ys \<Rightarrow> (case flatMap_from g xs (Suc i) of Inl e \<Rightarrow> Inl e | Inr zs \<Rightarrow> Inr (ys @ zs)))"

text \<open>The returned envelope; \<^verbatim>\<open>data[0]?.id\<close> and its mirror are undefined on an empty array.\<close>

definition list_envelope :: "'a assistant_scheme list \<Rightarrow> 'a AssistantListResponse" where
  "list_envelope d =
     \<lparr>first_id = (if d = [] then None else Some (assistant_id (d ! 0))),
      last_id = (if d = [] then None else Some (assistant_id (d ! (length d - 1)))),
      object = ''list'',
      has_more = False,
      data = d\<rparr>"

text \<open>
  \<^verbatim>\<open>azureConfig = {}\<close> is the default for an undefined argument, and then
  \<open>assistantGroups\<close> is not iterable.
\<close>

definition listAssistantsForAzure ::
  "('a, 'o) env \<Rightarrow> request \<Rightarrow> string \<Rightarrow> TAzureConfig option \<Rightarrow> list_query \<Rightarrow>
     event list \<times> (js_error + 'a AssistantListResponse)" where
  "listAssistantsForAzure env req v azureConfig q =
     (case azureConfig of
        None \<Rightarrow> ([], Inl (TypeError ''assistantGroups is not iterable''))
      | Some config \<Rightarrow>
          (case for_assistantGroups env (groupMap config) (assistantGroups config) req
                  \<lparr>groups = [], groupModelTuples = [], promises = []\<rparr> of
             (evs, Inl e) \<Rightarrow> (evs, Inl e)
           | (evs, Inr (req', f)) \<Rightarrow>
               (case Promise_all env req' q (promises f) of
                  (evs', Inl e) \<Rightarrow> (evs @ evs', Inl e)
                | (evs', Inr resolvedQueries) \<Rightarrow>
                    (evs @ evs',
                     case flatMap_from
                            (\<lambda>res i. map_throwing (remap (groups f) (groupModelTuples f) i)
                                       (page_data res))
                            resolvedQueries 0 of
                       Inl e \<Rightarrow> Inl e
                     | Inr d \<Rightarrow> Inr (list_envelope d)))))"

section \<open>The top-level fetch\<close>

text \<open>A destructuring default applies when the property is \<^verbatim>\<open>undefined\<close>.\<close>

definition with_default :: "jsval \<Rightarrow> jsval \<Rightarrow> jsval" where
  "with_default v d = (if v = JUndefined then d else v)"

definition fetchAssistants ::
  "('a, 'o) env \<Rightarrow> request \<Rightarrow> event list \<times> (js_error + 'a AssistantListResponse option)" where
  "fetchAssistants env req =
     (let endpoint = query_endpoint (query req)
      in case getCurrentVersion env req endpoint of
           (evs, Inl e) \<Rightarrow> (evs, Inl e)
         | (evs, Inr v) \<Rightarrow>
             (let q = \<lparr>limit = with_default (query_limit (query req)) (JNum 100),
                       order = with_default (query_order (query req)) (JStr ''desc''),
                       after = query_after (query req),
                       before = query_before (query req)\<rparr>
              in if endpoint = Some (assistants env)
                 then (case listAssistants env req v q of
                         (evs', Inl e) \<Rightarrow> (evs @ evs', Inl e)
                       | (evs', Inr res) \<Rightarrow> (evs @ evs', Inr (page_body res)))
                 else if endpoint = Some (azureAssistants env)
                 then (case listAssistantsForAzure env req v (azureOpenAI req) q of
                         (evs', Inl e) \<Rightarrow> (evs @ evs', Inl e)
                       | (evs', Inr b) \<Rightarrow> (evs @ evs', Inr (Some b)))
                 else (evs, Inr None)))"

section \<open>Example requests and configurations\<close>

text \<open>
  A request without body fields or query parameters, an installation with the usual
  endpoint names and default versions and an empty configuration cache, a vendor that
  returns one assistant deployed as \<open>d2\<close>, and group configurations over it.
\<close>

definition example_body :: req_body where
  "example_body = \<lparr>body_version = JUndefined, body_endpoint = None, body_model = None\<rparr>"

definition example_query :: req_query where
  "example_query =
     \<lparr>query_limit = JUndefined, query_order = JUndefined, query_after = JUndefined,
      query_before = JUndefined, query_endpoint = None\<rparr>"

definition group_g1 :: TAzureGroup where
  "group_g1 =
     \<lparr>deploymentName = Some ''d1'',
      models = [(''gpt-a'', \<lparr>config_deploymentName = Some ''d1''\<rparr>),
                (''gpt-b'', \<lparr>config_deploymentName = Some ''d2''\<rparr>)]\<rparr>"

definition group_g2 :: TAzureGroup where
  "group_g2 =
     \<lparr>deploymentName = Some ''d2'',
      models = [(''gpt-c'', \<lparr>config_deploymentName = Some ''d3''\<rparr>),
                (''gpt-d'', \<lparr>config_deploymentName = None\<rparr>)]\<rparr>"

definition config_g1 :: TAzureConfig where
  "config_g1 = \<lparr>groupMap = [''g1'' \<mapsto> group_g1], assistantGroups = [''g1'']\<rparr>"

definition config_g1_g2 :: TAzureConfig where
  "config_g1_g2 =
     \<lparr>groupMap = [''g1'' \<mapsto> group_g1, ''g2'' \<mapsto> group_g2], assistantGroups = [''g1'', ''g2'']\<rparr>"

definition azure_page :: "unit page" where
  "azure_page = \<lparr>page_data = [\<lparr>assistant_id = ''1'', model = ''d2''\<rparr>], page_body = None\<rparr>"

definition direct_page :: "unit page" where
  "direct_page =
     \<lparr>page_data = [\<lparr>assistant_id = ''7'', model = ''gpt-4''\<rparr>],
      page_body = Some \<lparr>first_id = Some ''7'', last_id = Some ''7'', object = ''list'',
                         has_more = True,
                         data = [\<lparr>assistant_id = ''7'', model = ''gpt-4''\<rparr>]\<rparr>\<rparr>"

definition example_env :: "(unit, unit) env" where
  "example_env =
     \<lparr>assistants = ''assistants'',
      azureAssistants = ''azureAssistants'',
      defaultAssistantsVersion = [''assistants'' \<mapsto> JNum 2, ''azureAssistants'' \<mapsto> JNum 1],
      cachedEndpointsConfig = None,
      initializeClient = (\<lambda>r v eo ia. Inr \<lparr>assistants_list = (\<lambda>q. Inr direct_page)\<rparr>),
      initAzureClient = (\<lambda>r v eo ia. Inr \<lparr>assistants_list = (\<lambda>q. Inr azure_page)\<rparr>),
      settle_order = []\<rparr>"

definition example_req :: "string \<Rightarrow> string option \<Rightarrow> request" where
  "example_req url endpoint =
     \<lparr>baseUrl = url, body = example_body,
      query = example_query\<lparr>query_endpoint := endpoint\<rparr>,
      azureOpenAI = Some config_g1\<rparr>"

definition cached_env :: "(unit, unit) env" where
  "cached_env =
     example_env\<lparr>cachedEndpointsConfig := Some [''endpointX'' \<mapsto> \<lparr>version = JNum 3\<rparr>]\<rparr>"

definition empty_page_env :: "(unit, unit) env" where
  "empty_page_env =
     example_env\<lparr>initAzureClient :=
       (\<lambda>r v eo ia. Inr \<lparr>assistants_list = (\<lambda>q. Inr \<lparr>page_data = [], page_body = None\<rparr>)\<rparr>)\<rparr>"

definition config_no_groups :: TAzureConfig where
  "config_no_groups = \<lparr>groupMap = Map.empty, assistantGroups = []\<rparr>"

definition example_list_query :: list_query where
  "example_list_query =
     \<lparr>limit = JNum 100, order = JStr ''desc'', after = JUndefined, before = JUndefined\<rparr>"

lemmas example_defs =
  example_body_def example_query_def group_g1_def group_g2_def config_g1_def
  config_g1_g2_def azure_page_def direct_page_def example_env_def example_req_def
  cached_env_def empty_page_env_def config_no_groups_def example_list_query_def

lemmas helper_defs =
  getCurrentVersion_def lastIndexOf_def cached_version_def default_version_def
  startsWith_def decimal_int_def digit_char_def substring_def
  getOpenAIClient_begin_def getOpenAIClient_resume_def getOpenAIClient_def
  listAssistants_begin_def listAssistants_resume_def listAssistants_def
  at_index_def remap_def list_envelope_def listAssistantsForAzure_def
  list_with_def first_rejection_def Promise_all_def
  with_default_def fetchAssistants_def

section \<open>Properties of the version resolver\<close>

text \<open>\<open>lastIndexOf\<close> finds the last occurrence, and \<open>-1\<close> exactly when there is none.\<close>

lemma lastIndexOf_from_found:
  "lastIndexOf_from s p k \<noteq> - 1 \<Longrightarrow>
     \<exists>i\<le>k. lastIndexOf_from s p k = int i \<and> prefix p (drop i s)"
  by (induction k) (auto split: if_splits)

lemma lastIndexOf_from_none:
  "(\<forall>j\<le>k. \<not> prefix p (drop j s)) \<Longrightarrow> lastIndexOf_from s p k = - 1"
  by (induction k) auto

lemma lastIndexOf_from_last:
  "i \<le> k \<Longrightarrow> prefix p (drop i s) \<Longrightarrow> (\<forall>j. i < j \<and> j \<le> k \<longrightarrow> \<not> prefix p (drop j s)) \<Longrightarrow>
     lastIndexOf_from s p k = int i"
proof (induction k)
  case 0
  then show ?case by simp
next
  case (Suc k)
  show ?case
  proof (cases "i = Suc k")
    case True
    with Suc.prems show ?thesis by simp
  next
    case False
    with Suc.prems have "i \<le> k" by simp
    moreover have "\<not> prefix p (drop (Suc k) s)" using Suc.prems False by auto
    ultimately show ?thesis using Suc by simp
  qed
qed

lemma prefix_drop_sublist: "prefix p (drop j s) \<Longrightarrow> sublist p s"
  by (metis sublist_drop prefix_imp_sublist sublist_order.order.trans)

lemma sublist_prefix_drop:
  assumes "sublist p s"
  shows "\<exists>j\<le>length s. prefix p (drop j s)"
proof -
  from assms obtain ps ss where "s = ps @ p @ ss"
    by (auto simp: sublist_def)
  then have "length ps \<le> length s" and "prefix p (drop (length ps) s)"
    by simp_all
  then show ?thesis by blast
qed

lemma lastIndexOf_none_iff: "lastIndexOf s p = - 1 \<longleftrightarrow> \<not> sublist p s"
proof
  assume none: "lastIndexOf s p = - 1"
  show "\<not> sublist p s"
  proof
    assume "sublist p s"
    then obtain j where j: "j \<le> length s" "prefix p (drop j s)"
      using sublist_prefix_drop by blast
    define P where "P = (\<lambda>i. i \<le> length s \<and> prefix p (drop i s))"
    have "P j" using j by (simp add: P_def)
    moreover have "\<forall>y. P y \<longrightarrow> y \<le> length s" by (simp add: P_def)
    ultimately have "P (Greatest P)" and gr: "\<forall>y. P y \<longrightarrow> y \<le> Greatest P"
      using GreatestI_nat [of P j "length s"] Greatest_le_nat [of P _ "length s"] by blast+
    then have "lastIndexOf_from s p (length s) = int (Greatest P)"
      by (intro lastIndexOf_from_last) (auto simp: P_def)
    with none show False by (simp add: lastIndexOf_def)
  qed
next
  assume "\<not> sublist p s"
  then have "\<forall>j\<le>length s. \<not> prefix p (drop j s)"
    using prefix_drop_sublist by blast
  then show "lastIndexOf s p = - 1"
    by (simp add: lastIndexOf_def lastIndexOf_from_none)
qed

lemma lastIndexOf_append:
  assumes "\<not> sublist ''/v'' suf"
  shows "lastIndexOf (pre @ ''/v'' @ suf) ''/v'' = int (length pre)"
proof -
  let ?s = "pre @ ''/v'' @ suf"
  have "\<not> prefix ''/v'' (drop j ?s)" if "length pre < j" for j
  proof (cases "j = Suc (length pre)")
    case True
    then show ?thesis by simp
  next
    case False
    with that have "drop j ?s = drop (j - length pre - 2) suf"
      by (simp add: drop_Cons')
    then show ?thesis using assms prefix_drop_sublist by metis
  qed
  then show ?thesis
    unfolding lastIndexOf_def by (intro lastIndexOf_from_last) auto
qed


lemma getCurrentVersion_found:
  assumes "lastIndexOf (baseUrl req) ''/v'' = int i" and "prefix ''/v'' (drop i (baseUrl req))"
  shows "getCurrentVersion env req endpoint = ([], Inr (CHR ''v'' # take 1 (drop (i + 2) (baseUrl req))))"
proof -
  from assms(2) obtain r where r: "drop i (baseUrl req) = ''/v'' @ r"
    by (auto simp: prefix_def)
  have "drop (Suc i) (baseUrl req) = drop 1 (drop i (baseUrl req))"
    by simp
  also have "\<dots> = CHR ''v'' # r" using r by simp
  finally have d1: "drop (Suc i) (baseUrl req) = CHR ''v'' # r" .
  have "drop (i + 2) (baseUrl req) = drop 2 (drop i (baseUrl req))"
    by (simp add: add.commute)
  also have "\<dots> = r" using r by simp
  finally have d2: "drop (Suc (Suc i)) (baseUrl req) = r" by simp
  have n1: "nat (int i + 1) = Suc i" and n3: "nat (int i + 3) = i + 3"
    by simp_all
  show ?thesis
    unfolding getCurrentVersion_def Let_def assms(1) n1 n3 substring_def 
    by (simp add: d1 d2 startsWith_def take_Cons')
qed

lemma getCurrentVersion_path:
  assumes "baseUrl req = pre @ ''/v'' @ suf" and "\<not> sublist ''/v'' suf"
  shows "getCurrentVersion env req endpoint = ([], Inr (CHR ''v'' # take 1 suf))"
  using getCurrentVersion_found [of req "length pre" env endpoint] lastIndexOf_append [OF assms(2), of pre]
  by (simp add: assms(1))

lemma getCurrentVersion_sublist:
  assumes "sublist ''/v'' (baseUrl req)"
  shows "\<exists>c. getCurrentVersion env req endpoint = ([], Inr (CHR ''v'' # c)) \<and> length c \<le> 1"
proof -
  from assms have "lastIndexOf (baseUrl req) ''/v'' \<noteq> - 1"
    by (simp add: lastIndexOf_none_iff)
  then obtain i where "lastIndexOf (baseUrl req) ''/v'' = int i" "prefix ''/v'' (drop i (baseUrl req))"
    unfolding lastIndexOf_def using lastIndexOf_from_found by blast
  then show ?thesis
    using getCurrentVersion_found [of req i env endpoint] by simp
qed

lemma getCurrentVersion_body:
  assumes "\<not> sublist ''/v'' (baseUrl req)" and "truthy (body_version (body req))"
  shows "getCurrentVersion env req endpoint = ([], Inr (''v'' @ toString (body_version (body req))))"
  using assms by (simp add: getCurrentVersion_def lastIndexOf_none_iff startsWith_def)

lemma getCurrentVersion_lookup:
  assumes "\<not> sublist ''/v'' (baseUrl req)" and "\<not> truthy (body_version (body req))" and "e \<noteq> []"
  shows "getCurrentVersion env req (Some e) =
    ([CacheGet], Inr (''v'' @ toString (nullish_coalesce (cached_version env e) (default_version env e))))"
  using assms by (simp add: getCurrentVersion_def lastIndexOf_none_iff startsWith_def)

lemma getCurrentVersion_null:
  assumes "\<not> sublist ''/v'' (baseUrl req)" and "\<not> truthy (body_version (body req))"
    and "\<not> truthy_endpoint endpoint"
  shows "getCurrentVersion env req endpoint =
    ([], Inl (TypeError ''Cannot read properties of null (reading length)''))"
  using assms by (simp add: getCurrentVersion_def lastIndexOf_none_iff split: option.splits)

text \<open>
  Whatever the request, the endpoint and the configuration, the resolver ends in one of
  two ways: with a version that starts with \<open>v\<close>, or with the \<^verbatim>\<open>TypeError\<close> of the
  final check.  The \<open>Invalid version\<close> error is never thrown: the check joins its two
  tests with \<^verbatim>\<open>&&\<close>, and every version the resolver builds starts with \<open>v\<close>.
\<close>

lemma getCurrentVersion_outcomes:
  "(\<exists>evs c. getCurrentVersion env req endpoint = (evs, Inr (CHR ''v'' # c))) \<or>
   getCurrentVersion env req endpoint =
     ([], Inl (TypeError ''Cannot read properties of null (reading length)''))"
proof (cases "sublist ''/v'' (baseUrl req)")
  case True
  then show ?thesis using getCurrentVersion_sublist [of req env endpoint] by blast
next
  case no_path: False
  show ?thesis
  proof (cases "truthy (body_version (body req))")
    case True
    then show ?thesis using getCurrentVersion_body [OF no_path, of env endpoint] by simp
  next
    case no_body: False
    show ?thesis
    proof (cases "truthy_endpoint endpoint")
      case True
      then obtain e where "endpoint = Some e" "e \<noteq> []"
        by (cases endpoint) auto
      then show ?thesis using getCurrentVersion_lookup [OF no_path no_body, of e env] by simp
    next
      case False
      then show ?thesis using getCurrentVersion_null [OF no_path no_body] by blast
    qed
  qed
qed

lemma getCurrentVersion_never_Error:
  "snd (getCurrentVersion env req endpoint) \<noteq> Inl (Error msg)"
  using getCurrentVersion_outcomes [of env req endpoint] by auto

lemma getCurrentVersion_returns:
  assumes "sublist ''/v'' (baseUrl req) \<or> truthy (body_version (body req)) \<or> truthy_endpoint endpoint"
  shows "\<exists>evs v. getCurrentVersion env req endpoint = (evs, Inr v)"
proof -
  have "getCurrentVersion env req endpoint \<noteq>
     ([], Inl (TypeError ''Cannot read properties of null (reading length)''))"
  proof (cases "sublist ''/v'' (baseUrl req)")
    case True
    then show ?thesis using getCurrentVersion_sublist [of req env endpoint] by auto
  next
    case no_path: False
    show ?thesis
    proof (cases "truthy (body_version (body req))")
      case True
      then show ?thesis using getCurrentVersion_body [OF no_path, of env endpoint] by simp
    next
      case no_body: False
      with no_path assms obtain e where "endpoint = Some e" "e \<noteq> []"
        by (cases endpoint) auto
      then show ?thesis using getCurrentVersion_lookup [OF no_path no_body, of e env] by simp
    qed
  qed
  then show ?thesis using getCurrentVersion_outcomes [of env req endpoint] by blast
qed

lemma getCurrentVersion_no_lookup:
  assumes "\<not> truthy_endpoint endpoint"
  shows "fst (getCurrentVersion env req endpoint) = []"
  using assms by (simp add: getCurrentVersion_def Let_def split: option.splits prod.splits bool.splits)

lemma getOpenAIClient_unfold:
  "getOpenAIClient env req endpointOption initAppClient overrideEndpoint =
     (let endpoint = coalesce overrideEndpoint
                       (coalesce (body_endpoint (body req)) (query_endpoint (query req)))
      in case getCurrentVersion env req endpoint of
           (evs, v) \<Rightarrow>
             (case getOpenAIClient_resume env req endpointOption initAppClient (endpoint, v) of
                (evs', r) \<Rightarrow> (evs @ evs', r)))"
  by (simp add: getOpenAIClient_def getOpenAIClient_begin_def Let_def split: prod.splits)

lemma digits_no_path_version:
  assumes "d1 \<in> set ''0123456789''" and "d2 \<in> set ''0123456789''" and "\<not> sublist ''/v'' rest"
  shows "\<not> sublist ''/v'' (d1 # d2 # rest)"
  using assms by (auto simp: sublist_Cons_right)

section \<open>Properties of the fan-out and the merge\<close>

lemma getCurrentVersion_events:
  "fst (getCurrentVersion env req endpoint) = [] \<or>
   fst (getCurrentVersion env req endpoint) = [CacheGet]"
  by (simp add: getCurrentVersion_def Let_def)

lemma getCurrentVersion_cong:
  assumes "baseUrl req' = baseUrl req" and "body_version (body req') = body_version (body req)"
  shows "getCurrentVersion env req' endpoint = getCurrentVersion env req endpoint"
  unfolding getCurrentVersion_def assms ..

lemma listAssistants_begin_cong:
  assumes "baseUrl req' = baseUrl req" and "body_version (body req') = body_version (body req)"
    and "body_endpoint (body req') = body_endpoint (body req)"
    and "query req' = query req"
  shows "listAssistants_begin env req' = listAssistants_begin env req"
  using getCurrentVersion_cong [OF assms(1,2), of env]
  by (simp add: listAssistants_begin_def getOpenAIClient_begin_def Let_def assms)

lemma listAssistants_begin_events:
  "\<forall>x\<in>set (fst (listAssistants_begin env req)). x = CacheGet"
  using getCurrentVersion_events
    [of env req "coalesce None (coalesce (body_endpoint (body req)) (query_endpoint (query req)))"]
  by (auto simp: listAssistants_begin_def getOpenAIClient_begin_def Let_def split: prod.splits)

text \<open>
  What the loop leaves behind when it runs through: one group with a non-empty model
  table for every configured name, its table, and one started call each.  The loop
  changes \<^verbatim>\<open>req.body.model\<close> only, which no started call has read so far.
\<close>

lemma for_assistantGroups_Inr:
  assumes "for_assistantGroups env gm names req f = (evs, Inr (req', f'))"
  shows "\<exists>gs. list_all2 (\<lambda>n g. gm n = Some g \<and> models g \<noteq> []) names gs
          \<and> groups f' = groups f @ gs
          \<and> groupModelTuples f' = groupModelTuples f @ map models gs
          \<and> promises f' = promises f @ replicate (length names) (snd (listAssistants_begin env req))
          \<and> (\<forall>x\<in>set evs. x = CacheGet)
          \<and> baseUrl req' = baseUrl req \<and> query req' = query req
          \<and> body_version (body req') = body_version (body req)
          \<and> body_endpoint (body req') = body_endpoint (body req)
          \<and> azureOpenAI req' = azureOpenAI req"
  using assms
proof (induction names arbitrary: req f evs)
  case Nil
  then show ?case by simp
next
  case (Cons name names)
  from Cons.prems obtain g where g: "gm name = Some g"
    by (cases "gm name") auto
  from Cons.prems g obtain firstModel c ms where ms: "models g = (firstModel, c) # ms"
    by (cases "models g") auto
  define req1 where "req1 = req\<lparr>body := (body req)\<lparr>body_model := Some firstModel\<rparr>\<rparr>"
  define f1 where "f1 = \<lparr>groups = groups f @ [g],
                          groupModelTuples = groupModelTuples f @ [models g],
                          promises = promises f @ [snd (listAssistants_begin env req1)]\<rparr>"
  obtain evs1 r where rest: "for_assistantGroups env gm names req1 f1 = (evs1, r)"
    by (cases "for_assistantGroups env gm names req1 f1")
  from Cons.prems g ms rest
  have evs: "evs = fst (listAssistants_begin env req1) @ evs1" and r: "r = Inr (req', f')"
    by (auto simp: req1_def f1_def Let_def split: prod.splits)
  have same: "listAssistants_begin env req1 = listAssistants_begin env req"
    by (rule listAssistants_begin_cong) (simp_all add: req1_def)
  from Cons.IH [OF rest [unfolded r]] obtain gs where
    gs: "list_all2 (\<lambda>n g. gm n = Some g \<and> models g \<noteq> []) names gs"
      "groups f' = groups f1 @ gs"
      "groupModelTuples f' = groupModelTuples f1 @ map models gs"
      "promises f' = promises f1 @ replicate (length names) (snd (listAssistants_begin env req1))"
      "\<forall>x\<in>set evs1. x = CacheGet"
      "baseUrl req' = baseUrl req1" "query req' = query req1"
      "body_version (body req') = body_version (body req1)"
      "body_endpoint (body req') = body_endpoint (body req1)"
      "azureOpenAI req' = azureOpenAI req1"
    by blast
  have "list_all2 (\<lambda>n g. gm n = Some g \<and> models g \<noteq> []) (name # names) (g # gs)"
    using gs(1) g ms by simp
  moreover have "groups f' = groups f @ g # gs"
    using gs(2) by (simp add: f1_def)
  moreover have "groupModelTuples f' = groupModelTuples f @ map models (g # gs)"
    using gs(3) by (simp add: f1_def)
  moreover have "promises f' = promises f @
      replicate (length (name # names)) (snd (listAssistants_begin env req))"
    using gs(4) by (simp add: f1_def same)
  moreover have "\<forall>x\<in>set evs. x = CacheGet"
    using gs(5) listAssistants_begin_events [of env req1] by (auto simp: evs)
  moreover have "baseUrl req' = baseUrl req \<and> query req' = query req
          \<and> body_version (body req') = body_version (body req)
          \<and> body_endpoint (body req') = body_endpoint (body req)
          \<and> azureOpenAI req' = azureOpenAI req"
    using gs(6-10) by (simp add: req1_def)
  ultimately show ?case by blast
qed

text \<open>The loop runs through when every name has a group with at least one model.\<close>

lemma for_assistantGroups_returns:
  assumes "\<forall>n\<in>set names. \<exists>g. gm n = Some g \<and> models g \<noteq> []"
  shows "\<exists>evs req' f'. for_assistantGroups env gm names req f = (evs, Inr (req', f'))"
  using assms
proof (induction names arbitrary: req f)
  case Nil
  then show ?case by simp
next
  case (Cons name names)
  then obtain g t ts where g: "gm name = Some g" "models g = t # ts"
    by (cases "models (the (gm name))") auto
  obtain firstModel c where t: "t = (firstModel, c)"
    by (cases t)
  let ?req = "req\<lparr>body := (body req)\<lparr>body_model := Some firstModel\<rparr>\<rparr>"
  obtain evs0 p where p: "listAssistants_begin env ?req = (evs0, p)"
    by (cases "listAssistants_begin env ?req")
  let ?f = "\<lparr>groups = groups f @ [g], groupModelTuples = groupModelTuples f @ [models g],
            promises = promises f @ [p]\<rparr>"
  from Cons.IH [of ?req ?f] Cons.prems obtain evs req' f' where
    "for_assistantGroups env gm names ?req ?f = (evs, Inr (req', f'))"
    by auto
  with g t p show ?case
    by (simp add: Let_def)
qed

text \<open>A call that resolves has made exactly one vendor list call, with the query it was given.\<close>

lemma getOpenAIClient_resume_events:
  "\<forall>x\<in>set (fst (getOpenAIClient_resume env req eo ia p)). \<not> is_AssistantsList x"
  by (cases p) (auto simp: getOpenAIClient_resume_def split: sum.splits)

lemma listAssistants_resume_Inr:
  assumes "listAssistants_resume env req q p = (evs, Inr res)"
  shows "filter is_AssistantsList evs = [AssistantsList q]"
proof -
  obtain evs0 r where r: "getOpenAIClient_resume env req None None p = (evs0, r)"
    by (cases "getOpenAIClient_resume env req None None p")
  with assms obtain openai where "r = Inr (Some openai)" "evs = evs0 @ [AssistantsList q]"
    by (auto simp: listAssistants_resume_def split: sum.splits option.splits)
  moreover have "filter is_AssistantsList evs0 = []"
    using getOpenAIClient_resume_events [of env req None None p] r by (simp add: filter_empty_conv)
  ultimately show ?thesis by simp
qed

lemma listAssistants_resume_queries:
  "\<forall>x\<in>set (fst (listAssistants_resume env req q p)). is_AssistantsList x \<longrightarrow> x = AssistantsList q"
proof -
  obtain evs0 r where r: "getOpenAIClient_resume env req None None p = (evs0, r)"
    by (cases "getOpenAIClient_resume env req None None p")
  then show ?thesis
    using getOpenAIClient_resume_events [of env req None None p]
    by (auto simp: listAssistants_resume_def split: sum.splits option.splits)
qed

text \<open>A call awaited on its own goes through the same two steps as a call of the fan-out.\<close>

lemma listAssistants_resume_rounds:
  "listAssistants_resume env req q p =
     (case getOpenAIClient_resume env req None None p of
        (evs, c) \<Rightarrow> (case list_with q c of (evs', r) \<Rightarrow> (evs @ evs', r)))"
  by (simp add: listAssistants_resume_def list_with_def split: prod.splits sum.splits option.splits)

lemma resume_clients_results:
  "snd (resume_clients env req ps) =
     map (\<lambda>p. snd (getOpenAIClient_resume env req None None p)) ps"
  by (induction ps) (auto split: prod.splits)

lemma resume_clients_events:
  "\<forall>x\<in>set (fst (resume_clients env req ps)). \<not> is_AssistantsList x"
proof (induction ps)
  case Nil
  then show ?case by simp
next
  case (Cons p ps)
  then show ?case
    using getOpenAIClient_resume_events [of env req None None p]
    by (auto split: prod.splits)
qed

lemma list_with_events: "\<forall>x\<in>set (fst (list_with q c)). x = AssistantsList q"
  by (auto simp: list_with_def split: sum.splits option.splits)

lemma list_with_Inr: "snd (list_with q c) = Inr res \<Longrightarrow> fst (list_with q c) = [AssistantsList q]"
  by (auto simp: list_with_def split: sum.splits option.splits)

lemma resume_lists_results: "snd (resume_lists q cs) = map (\<lambda>c. snd (list_with q c)) cs"
  by (induction cs) (auto split: prod.splits)

lemma resume_lists_events: "\<forall>x\<in>set (fst (resume_lists q cs)). x = AssistantsList q"
proof (induction cs)
  case Nil
  then show ?case by simp
next
  case (Cons c cs)
  then show ?case
    using list_with_events [of q c] by (auto split: prod.splits)
qed

lemma resume_lists_resolved:
  assumes "\<forall>r\<in>set (snd (resume_lists q cs)). \<exists>x. r = Inr x"
  shows "fst (resume_lists q cs) = replicate (length cs) (AssistantsList q)"
  using assms
proof (induction cs)
  case Nil
  then show ?case by simp
next
  case (Cons c cs)
  obtain evs r where c: "list_with q c = (evs, r)"
    by (cases "list_with q c")
  obtain evs' rs where cs: "resume_lists q cs = (evs', rs)"
    by (cases "resume_lists q cs")
  from Cons.prems c cs obtain x where "r = Inr x" and rs: "\<forall>r\<in>set rs. \<exists>x. r = Inr x"
    by auto
  then have "evs = [AssistantsList q]"
    using list_with_Inr [of q c x] c by simp
  moreover have "evs' = replicate (length cs) (AssistantsList q)"
    using Cons.IH rs cs by simp
  ultimately show ?case using c cs by simp
qed

text \<open>Whatever the order in which the calls settle, there is a rejection to report exactly
  when some call rejects.\<close>

lemma rejection_at_None: "rejection_at rs i = None \<longleftrightarrow> (i < length rs \<longrightarrow> (\<exists>x. rs ! i = Inr x))"
  by (auto simp: at_index_def split: sum.splits)

lemma first_rejection_None:
  "first_rejection ord rs = None \<longleftrightarrow> (\<forall>r\<in>set rs. \<exists>x. r = Inr x)"
proof
  assume none: "first_rejection ord rs = None"
  have "find (\<lambda>i. rejection_at rs i \<noteq> None) (ord @ [0..<length rs]) = None"
  proof (cases "find (\<lambda>i. rejection_at rs i \<noteq> None) (ord @ [0..<length rs])")
    case None
    then show ?thesis .
  next
    case (Some i)
    then have "rejection_at rs i \<noteq> None"
      by (auto simp: find_Some_iff)
    with none Some show ?thesis by (simp add: first_rejection_def)
  qed
  then have all: "\<forall>i<length rs. rejection_at rs i = None"
    by (auto simp: find_None_iff)
  show "\<forall>r\<in>set rs. \<exists>x. r = Inr x"
  proof
    fix r assume "r \<in> set rs"
    then obtain i where "i < length rs" "rs ! i = r"
      by (auto simp: in_set_conv_nth)
    with all show "\<exists>x. r = Inr x"
      using rejection_at_None [of rs i] by auto
  qed
next
  assume "\<forall>r\<in>set rs. \<exists>x. r = Inr x"
  then have "\<forall>i. rejection_at rs i = None"
    using rejection_at_None [of rs] by auto
  then have "find (\<lambda>i. rejection_at rs i \<noteq> None) is = None" for "is"
    by (induction "is") simp_all
  then show "first_rejection ord rs = None"
    unfolding first_rejection_def by simp
qed

lemma first_rejection_Some:
  "first_rejection ord rs = Some e \<Longrightarrow> Inl e \<in> set rs"
proof -
  assume some: "first_rejection ord rs = Some e"
  then obtain i where "rejection_at rs i = Some e"
    by (auto simp: first_rejection_def split: option.splits)
  then show ?thesis
    by (auto simp: at_index_def split: if_splits sum.splits dest: nth_mem)
qed

lemma Promise_all_Nil: "Promise_all env req q [] = ([], Inr [])"
proof -
  have "first_rejection (settle_order env) ([] :: (js_error + 'a page) list) = None"
    by (simp add: first_rejection_None)
  then show ?thesis
    by (simp add: Promise_all_def)
qed

lemma resolved_values_all:
  "\<forall>r\<in>set rs. \<exists>x. r = Inr x \<Longrightarrow> map Inr (resolved_values rs) = rs"
  by (induction rs) auto

lemma Promise_all_Inr:
  assumes "Promise_all env req q ps = (evs, Inr ress)"
  shows "length ress = length ps
       \<and> (\<forall>i<length ps. snd (listAssistants_resume env req q (ps ! i)) = Inr (ress ! i))
       \<and> filter is_AssistantsList evs = replicate (length ps) (AssistantsList q)"
proof -
  obtain evs1 cs where cs: "resume_clients env req ps = (evs1, cs)"
    by (cases "resume_clients env req ps")
  obtain evs2 rs where rs: "resume_lists q cs = (evs2, rs)"
    by (cases "resume_lists q cs")
  from assms cs rs have none: "first_rejection (settle_order env) rs = None"
    and ress: "ress = resolved_values rs" and evs: "evs = evs1 @ evs2"
    by (auto simp: Promise_all_def split: option.splits)
  from none have all: "\<forall>r\<in>set rs. \<exists>x. r = Inr x"
    by (simp add: first_rejection_None)
  then have map: "map Inr ress = rs"
    by (simp add: ress resolved_values_all)
  have cs_eq: "cs = map (\<lambda>p. snd (getOpenAIClient_resume env req None None p)) ps"
    using resume_clients_results [of env req ps] cs by simp
  have rs_eq: "rs = map (\<lambda>c. snd (list_with q c)) cs"
    using resume_lists_results [of q cs] rs by simp
  have len: "length ress = length ps"
    using map rs_eq cs_eq by (metis length_map)
  have "snd (listAssistants_resume env req q (ps ! i)) = Inr (ress ! i)" if "i < length ps" for i
  proof -
    have "snd (listAssistants_resume env req q (ps ! i))
        = snd (list_with q (snd (getOpenAIClient_resume env req None None (ps ! i))))"
      by (simp add: listAssistants_resume_rounds split: prod.splits)
    also have "\<dots> = rs ! i"
      using that by (simp add: rs_eq cs_eq)
    also have "\<dots> = Inr (ress ! i)"
      using that len map by (metis nth_map)
    finally show ?thesis .
  qed
  moreover have "filter is_AssistantsList evs = replicate (length ps) (AssistantsList q)"
  proof -
    have "filter is_AssistantsList evs1 = []"
      using resume_clients_events [of env req ps] cs by (simp add: filter_empty_conv)
    moreover have "evs2 = replicate (length cs) (AssistantsList q)"
      using resume_lists_resolved [of q cs] rs all by simp
    moreover have "length cs = length ps"
      by (simp add: cs_eq)
    ultimately show ?thesis by (simp add: evs)
  qed
  ultimately show ?thesis using len by blast
qed

lemma Promise_all_queries:
  "\<forall>x\<in>set (fst (Promise_all env req q ps)). is_AssistantsList x \<longrightarrow> x = AssistantsList q"
proof -
  obtain evs1 cs where cs: "resume_clients env req ps = (evs1, cs)"
    by (cases "resume_clients env req ps")
  obtain evs2 rs where rs: "resume_lists q cs = (evs2, rs)"
    by (cases "resume_lists q cs")
  have "fst (Promise_all env req q ps) = evs1 @ evs2"
    using cs rs by (simp add: Promise_all_def)
  then show ?thesis
    using resume_clients_events [of env req ps] resume_lists_events [of q cs] cs rs by auto
qed

lemma matching_model_first:
  assumes "config_deploymentName c = Some d"
    and "\<forall>(x, y)\<in>set pre. config_deploymentName y \<noteq> Some d"
  shows "matching_model (pre @ (m, c) # post) d = Some m"
  using assms by (induction pre) auto

lemma matching_model_None:
  "matching_model ts d = None \<longleftrightarrow> (\<forall>(x, y)\<in>set ts. config_deploymentName y \<noteq> Some d)"
  by (induction ts) (auto split: if_splits)

lemma remap_returns:
  assumes "at_index gs i = Some g" and "at_index tuples i = Some t" and "t \<noteq> []"
  shows "\<exists>m. remap gs tuples i a = Inr (a\<lparr>model := m\<rparr>)"
  using assms by (cases t) (auto simp: remap_def split: option.splits)


lemma map_throwing_returns:
  "\<forall>x\<in>set xs. \<exists>y. g x = Inr y \<Longrightarrow> \<exists>ys. map_throwing g xs = Inr ys"
  by (induction xs) auto



lemma flatMap_from_returns:
  assumes "\<forall>k<length xs. \<forall>a\<in>set (sel (xs ! k)). \<exists>y. h (i + k) a = Inr y"
  shows "\<exists>d. flatMap_from (\<lambda>res j. map_throwing (h j) (sel res)) xs i = Inr d"
  using assms
proof (induction xs arbitrary: i)
  case Nil
  then show ?case by simp
next
  case (Cons x xs)
  have "\<forall>a\<in>set (sel x). \<exists>y. h i a = Inr y"
    using Cons.prems by force
  then obtain ys where ys: "map_throwing (h i) (sel x) = Inr ys"
    using map_throwing_returns by blast
  have "\<forall>k<length xs. \<forall>a\<in>set (sel (xs ! k)). \<exists>y. h (Suc i + k) a = Inr y"
  proof (intro allI impI)
    fix k assume "k < length xs"
    then have "Suc k < length (x # xs)" by simp
    from Cons.prems [rule_format, OF this] show "\<forall>a\<in>set (sel (xs ! k)). \<exists>y. h (Suc i + k) a = Inr y"
      by simp
  qed
  from Cons.IH [OF this] obtain zs where
    "flatMap_from (\<lambda>res j. map_throwing (h j) (sel res)) xs (Suc i) = Inr zs"
    by blast
  with ys show ?case by simp
qed

lemma list_envelope_simps:
  "object (list_envelope d) = ''list''" "\<not> has_more (list_envelope d)" "data (list_envelope d) = d"
  "first_id (list_envelope d) = (if d = [] then None else Some (assistant_id (hd d)))"
  "last_id (list_envelope d) = (if d = [] then None else Some (assistant_id (last d)))"
  by (simp_all add: list_envelope_def hd_conv_nth last_conv_nth)

text \<open>
  The lister returns exactly when the loop runs through and every started call resolves;
  the merge itself cannot throw then.
\<close>

lemma listAssistantsForAzure_Inr:
  assumes "listAssistantsForAzure env req v (Some config) q = (evs, Inr r)"
  obtains req' f evs1 evs2 ress d where
    "for_assistantGroups env (groupMap config) (assistantGroups config) req
       \<lparr>groups = [], groupModelTuples = [], promises = []\<rparr> = (evs1, Inr (req', f))"
    "Promise_all env req' q (promises f) = (evs2, Inr ress)"
    "evs = evs1 @ evs2"
    "flatMap_from (\<lambda>res i. map_throwing (remap (groups f) (groupModelTuples f) i) (page_data res))
       ress 0 = Inr d"
    "r = list_envelope d"
  using assms
  by (auto simp: listAssistantsForAzure_def split: prod.splits sum.splits)

lemma listAssistantsForAzure_returns:
  assumes loop: "for_assistantGroups env (groupMap config) (assistantGroups config) req
       \<lparr>groups = [], groupModelTuples = [], promises = []\<rparr> = (evs1, Inr (req', f))"
    and all: "Promise_all env req' q (promises f) = (evs2, Inr ress)"
  shows "\<exists>d. flatMap_from
           (\<lambda>res i. map_throwing (remap (groups f) (groupModelTuples f) i) (page_data res))
           ress 0 = Inr d
         \<and> listAssistantsForAzure env req v (Some config) q = (evs1 @ evs2, Inr (list_envelope d))"
proof -
  from for_assistantGroups_Inr [OF loop] obtain gs where
    gs: "list_all2 (\<lambda>n g. groupMap config n = Some g \<and> models g \<noteq> []) (assistantGroups config) gs"
      "groups f = gs" "groupModelTuples f = map models gs"
      "length (promises f) = length (assistantGroups config)"
    by auto
  from Promise_all_Inr [OF all] have len: "length ress = length (promises f)"
    by simp
  have n: "length gs = length ress"
    using gs(1,4) len by (simp add: list_all2_lengthD)
  have "\<forall>k<length ress. \<forall>a\<in>set (page_data (ress ! k)).
          \<exists>y. remap (groups f) (groupModelTuples f) (0 + k) a = Inr y"
  proof (intro allI impI ballI)
    fix k a assume k: "k < length ress" and "a \<in> set (page_data (ress ! k))"
    then have "at_index gs k = Some (gs ! k)" "at_index (map models gs) k = Some (models (gs ! k))"
      using n by (simp_all add: at_index_def)
    moreover have "models (gs ! k) \<noteq> []"
      using gs(1) k n by (simp add: list_all2_conv_all_nth)
    ultimately show "\<exists>y. remap (groups f) (groupModelTuples f) (0 + k) a = Inr y"
      using remap_returns [of gs k "gs ! k" "map models gs" "models (gs ! k)" a]
      by (auto simp: gs(2,3))
  qed
  from flatMap_from_returns [OF this] obtain d where
    d: "flatMap_from
           (\<lambda>res i. map_throwing (remap (groups f) (groupModelTuples f) i) (page_data res))
           ress 0 = Inr d"
    by blast
  then show ?thesis
    using loop all by (simp add: listAssistantsForAzure_def)
qed

lemma matching_model_find:
  "matching_model ts d =
     map_option fst (find (\<lambda>(m, modelConfig). config_deploymentName modelConfig = Some d) ts)"
  by (induction ts) auto

lemma flatMap_from_empty_pages:
  assumes "\<forall>res\<in>set ress. sel res = []"
  shows "flatMap_from (\<lambda>res j. map_throwing (h j) (sel res)) ress i = Inr []"
  using assms by (induction ress arbitrary: i) auto

lemma for_assistantGroups_events:
  "\<forall>x\<in>set (fst (for_assistantGroups env gm names req f)). x = CacheGet"
proof (induction names arbitrary: req f)
  case Nil
  then show ?case by simp
next
  case (Cons name names)
  show ?case
  proof (cases "gm name")
    case None
    then show ?thesis by simp
  next
    case (Some g)
    show ?thesis
    proof (cases "models g")
      case Nil
      with Some show ?thesis by simp
    next
      case (Cons t ts)
      obtain firstModel c where t: "t = (firstModel, c)"
        by (cases t)
      let ?req = "req\<lparr>body := (body req)\<lparr>body_model := Some firstModel\<rparr>\<rparr>"
      let ?f = "\<lparr>groups = groups f @ [g], groupModelTuples = groupModelTuples f @ [models g],
                promises = promises f @ [snd (listAssistants_begin env ?req)]\<rparr>"
      have "fst (for_assistantGroups env gm (name # names) req f) =
          fst (listAssistants_begin env ?req) @ fst (for_assistantGroups env gm names ?req ?f)"
        using Some Cons t by (simp add: Let_def split: prod.splits)
      then show ?thesis
        using listAssistants_begin_events [of env ?req] Cons.IH [of ?req ?f] by auto
    qed
  qed
qed

lemma listAssistants_queries:
  "\<forall>x\<in>set (fst (listAssistants env req v q)). is_AssistantsList x \<longrightarrow> x = AssistantsList q"
proof -
  obtain evs p where p: "listAssistants_begin env req = (evs, p)"
    by (cases "listAssistants_begin env req")
  then show ?thesis
    using listAssistants_begin_events [of env req] listAssistants_resume_queries [of env req q p]
    by (auto simp: listAssistants_def split: prod.splits)
qed

lemma listAssistantsForAzure_queries:
  "\<forall>x\<in>set (fst (listAssistantsForAzure env req v azureConfig q)).
     is_AssistantsList x \<longrightarrow> x = AssistantsList q"
proof (cases azureConfig)
  case None
  then show ?thesis by (simp add: listAssistantsForAzure_def)
next
  case (Some config)
  let ?loop = "for_assistantGroups env (groupMap config) (assistantGroups config) req
       \<lparr>groups = [], groupModelTuples = [], promises = []\<rparr>"
  obtain evs1 r1 where loop: "?loop = (evs1, r1)"
    by (cases ?loop)
  then have evs1: "\<forall>x\<in>set evs1. \<not> is_AssistantsList x"
    using for_assistantGroups_events
      [of env "groupMap config" "assistantGroups config" req
          "\<lparr>groups = [], groupModelTuples = [], promises = []\<rparr>"]
    by auto
  show ?thesis
  proof (cases r1)
    case (Inl e)
    with Some loop evs1 show ?thesis by (simp add: listAssistantsForAzure_def)
  next
    case (Inr s)
    obtain req' f where s: "s = (req', f)"
      by (cases s)
    obtain evs2 r2 where all: "Promise_all env req' q (promises f) = (evs2, r2)"
      by (cases "Promise_all env req' q (promises f)")
    then have "\<forall>x\<in>set evs2. is_AssistantsList x \<longrightarrow> x = AssistantsList q"
      using Promise_all_queries [of env req' q "promises f"] by simp
    with Some loop Inr s all evs1 show ?thesis
      by (cases r2) (auto simp: listAssistantsForAzure_def)
  qed
qed

text \<open>
  Two groups over the example vendor: both initializer calls come before the two list
  calls, and both see the \<^verbatim>\<open>req.body.model\<close> that the last round of the loop wrote.
\<close>

lemma example_fan_out_trace:
  "fst (listAssistantsForAzure example_env
          (example_req ''/api/assistants/v1'' (Some ''azureAssistants''))
          ''v1'' (Some config_g1_g2) example_list_query)
     = [InitAzureClient ''v1'' (Some ''gpt-c''), InitAzureClient ''v1'' (Some ''gpt-c''),
        AssistantsList example_list_query, AssistantsList example_list_query]"
  by (simp add: example_defs helper_defs)

text \<open>
  When two started calls reject, the order in which they settle decides which rejection
  \<^verbatim>\<open>Promise.all\<close> reports.
\<close>

lemma first_rejection_by_time:
  "first_rejection [1, 0] [Inl (Error ''first''), Inl (Error ''second'') :: js_error + unit]
     = Some (Error ''second'')
   \<and> first_rejection [] [Inl (Error ''first''), Inl (Error ''second'') :: js_error + unit]
     = Some (Error ''first'')"
  by (simp add: first_rejection_def at_index_def)

section \<open>Claims about the version resolver\<close>

text \<open>
  C1.  The claim: whenever the resolved version token does not start with \<open>v\<close> or is not
  exactly two characters long, in particular when neither path nor body gives a version
  and neither the cache nor the default table has one for the endpoint,
  \<open>getCurrentVersion\<close> throws the \<open>Invalid version\<close> error instead of returning the token.
  The code does not: for the base path \<open>/api/assistants\<close>, an empty body, the endpoint
  \<open>custom\<close>, an empty cache and a default table without \<open>custom\<close>, it reads the cache
  once and returns the ten characters \<open>vundefined\<close>.
\<close>

theorem getCurrentVersion_returns_vundefined:
  "getCurrentVersion example_env (example_req ''/api/assistants'' None) (Some ''custom'')
     = ([CacheGet], Inr ''vundefined'')"
  by (simp add: example_defs helper_defs)

text \<open>
  C3.  Precedence of the version sources: path, then body, then cache, then the default
  table.  When the base path contains \<open>/v\<close>, the result is the \<open>v\<close> of its last
  occurrence and the character after it, if there is one, for every body, endpoint,
  cache and default table, and the cache is not read; in particular, when the last
  \<open>/v\<close> is followed by two digits, the result is the two characters \<open>v\<close> and the first
  digit.  Without \<open>/v\<close> in the path, a body version
  \<open>2\<close> gives \<open>v2\<close>, again without a cache read.  With neither, and a non-empty endpoint
  name, the cache is read once and the result is \<open>v\<close> followed by the cached version
  of the endpoint when there is one (not undefined, not null), and by the default of the
  endpoint otherwise.
\<close>

theorem getCurrentVersion_precedence:
  "(baseUrl req = pre @ ''/v'' @ suf \<and> \<not> sublist ''/v'' suf
      \<longrightarrow> getCurrentVersion env req endpoint = ([], Inr (CHR ''v'' # take 1 suf)))
   \<and> (baseUrl req = pre @ ''/v'' @ d1 # d2 # rest \<and> d1 \<in> set ''0123456789'' \<and>
      d2 \<in> set ''0123456789'' \<and> \<not> sublist ''/v'' rest
      \<longrightarrow> getCurrentVersion env req endpoint = ([], Inr [CHR ''v'', d1]))
   \<and> (\<not> sublist ''/v'' (baseUrl req) \<and> body_version (body req) = JStr ''2''
      \<longrightarrow> getCurrentVersion env req endpoint = ([], Inr ''v2''))
   \<and> (\<not> sublist ''/v'' (baseUrl req) \<and> \<not> truthy (body_version (body req)) \<and> e \<noteq> []
      \<longrightarrow> (cached_version env e \<notin> {JUndefined, JNull}
             \<longrightarrow> getCurrentVersion env req (Some e)
                   = ([CacheGet], Inr (''v'' @ toString (cached_version env e))))
        \<and> (cached_version env e \<in> {JUndefined, JNull}
             \<longrightarrow> getCurrentVersion env req (Some e)
                   = ([CacheGet], Inr (''v'' @ toString (default_version env e)))))"
proof (intro conjI impI)
  assume "baseUrl req = pre @ ''/v'' @ suf \<and> \<not> sublist ''/v'' suf"
  then show "getCurrentVersion env req endpoint = ([], Inr (CHR ''v'' # take 1 suf))"
    using getCurrentVersion_path [of req pre suf env endpoint] by simp
next
  assume "baseUrl req = pre @ ''/v'' @ d1 # d2 # rest \<and> d1 \<in> set ''0123456789'' \<and>
      d2 \<in> set ''0123456789'' \<and> \<not> sublist ''/v'' rest"
  then show "getCurrentVersion env req endpoint = ([], Inr [CHR ''v'', d1])"
    using getCurrentVersion_path [of req pre "d1 # d2 # rest" env endpoint]
      digits_no_path_version [of d1 d2 rest] by simp
next
  assume "\<not> sublist ''/v'' (baseUrl req) \<and> body_version (body req) = JStr ''2''"
  then show "getCurrentVersion env req endpoint = ([], Inr ''v2'')"
    using getCurrentVersion_body [of req env endpoint] by simp
next
  assume a: "\<not> sublist ''/v'' (baseUrl req) \<and> \<not> truthy (body_version (body req)) \<and> e \<noteq> []"
    and c: "cached_version env e \<notin> {JUndefined, JNull}"
  from c have "nullish_coalesce (cached_version env e) (default_version env e)
      = cached_version env e"
    by (cases "cached_version env e") simp_all
  with a show "getCurrentVersion env req (Some e)
                   = ([CacheGet], Inr (''v'' @ toString (cached_version env e)))"
    using getCurrentVersion_lookup [of req e env] by simp
next
  assume a: "\<not> sublist ''/v'' (baseUrl req) \<and> \<not> truthy (body_version (body req)) \<and> e \<noteq> []"
    and c: "cached_version env e \<in> {JUndefined, JNull}"
  from c have "nullish_coalesce (cached_version env e) (default_version env e)
      = default_version env e"
    by auto
  with a show "getCurrentVersion env req (Some e)
                   = ([CacheGet], Inr (''v'' @ toString (default_version env e)))"
    using getCurrentVersion_lookup [of req e env] by simp
qed

text \<open>
  The path \<open>/api/assistants/v2\<close> resolves to \<open>v2\<close>, \<open>/api/assistants/v12\<close> to \<open>v1\<close>; a body version \<open>2\<close> wins over a
  cached version 3; the cache \<open>{endpointX: {version: 3}}\<close> gives \<open>v3\<close>; an empty cache
  leaves the default 2 of the direct endpoint.
\<close>

theorem getCurrentVersion_precedence_witness:
  "getCurrentVersion example_env (example_req ''/api/assistants/v2'' None) None = ([], Inr ''v2'')
   \<and> getCurrentVersion example_env (example_req ''/api/assistants/v12'' None) None = ([], Inr ''v1'')
   \<and> getCurrentVersion cached_env
        ((example_req ''/api/assistants'' None)\<lparr>body := example_body\<lparr>body_version := JStr ''2''\<rparr>\<rparr>)
        (Some ''endpointX'') = ([], Inr ''v2'')
   \<and> getCurrentVersion cached_env (example_req ''/api/assistants'' None) (Some ''endpointX'')
        = ([CacheGet], Inr ''v3'')
   \<and> getCurrentVersion example_env (example_req ''/api/assistants'' None) (Some ''assistants'')
        = ([CacheGet], Inr ''v2'')"
proof -
  have no: "\<not> sublist ''/v'' ''/api/assistants''" and no': "\<not> sublist ''/v'' []"
    by (simp_all add: sublist_Cons_right)
  have no2: "\<not> sublist ''/v'' ''2''"
    by (simp add: sublist_Cons_right)
  have 0: "getCurrentVersion example_env (example_req ''/api/assistants/v2'' None) None
      = ([], Inr ''v2'')"
    using no2 getCurrentVersion_precedence
      [where req = "example_req ''/api/assistants/v2'' None" and pre = "''/api/assistants''"
         and suf = "''2''" and env = example_env and endpoint = None]
    by (simp add: example_req_def)
  have 1: "getCurrentVersion example_env (example_req ''/api/assistants/v12'' None) None
      = ([], Inr ''v1'')"
    using no' getCurrentVersion_precedence
      [where req = "example_req ''/api/assistants/v12'' None" and pre = "''/api/assistants''"
         and ?d1.0 = "CHR ''1''" and ?d2.0 = "CHR ''2''" and rest = "[]"
         and env = example_env and endpoint = None]
    by (simp add: example_req_def)
  have 2: "getCurrentVersion cached_env
        ((example_req ''/api/assistants'' None)\<lparr>body := example_body\<lparr>body_version := JStr ''2''\<rparr>\<rparr>)
        (Some ''endpointX'') = ([], Inr ''v2'')"
    using no getCurrentVersion_precedence
      [where req = "(example_req ''/api/assistants'' None)
                      \<lparr>body := example_body\<lparr>body_version := JStr ''2''\<rparr>\<rparr>"
         and env = cached_env and endpoint = "Some ''endpointX''"]
    by (simp add: example_req_def)
  have 3: "getCurrentVersion cached_env (example_req ''/api/assistants'' None) (Some ''endpointX'')
        = ([CacheGet], Inr ''v3'')"
    using no getCurrentVersion_precedence
      [where req = "example_req ''/api/assistants'' None"
         and env = cached_env and e = "''endpointX''"]
    by (simp add: example_req_def example_body_def cached_env_def cached_version_def
        decimal_int_def digit_char_def)
  have 4: "getCurrentVersion example_env (example_req ''/api/assistants'' None) (Some ''assistants'')
        = ([CacheGet], Inr ''v2'')"
    using no getCurrentVersion_precedence
      [where req = "example_req ''/api/assistants'' None"
         and env = example_env and e = "''assistants''"]
    by (simp add: example_req_def example_body_def example_env_def cached_version_def
        default_version_def decimal_int_def digit_char_def)
  from 0 1 2 3 4 show ?thesis by blast
qed

section \<open>Claims about the client resolver and the top-level fetch\<close>

text \<open>
  C2, as the code has it.  The claim: with no endpoint to be had from the override, the
  body or the query, \<open>getOpenAIClient\<close> throws \<open>Endpoint is required\<close> before version
  resolution has any effect.  The code resolves the version first; with no endpoint that
  never reads the cache and no initializer is called, and when the path or the body
  gives a version the error is \<open>Endpoint is required\<close>, carrying the base path.
\<close>

theorem getOpenAIClient_without_endpoint:
  assumes "\<not> truthy_endpoint (coalesce overrideEndpoint
             (coalesce (body_endpoint (body req)) (query_endpoint (query req))))"
  shows "fst (getOpenAIClient env req endpointOption initAppClient overrideEndpoint) = [] \<and>
         (sublist ''/v'' (baseUrl req) \<or> truthy (body_version (body req)) \<longrightarrow>
            snd (getOpenAIClient env req endpointOption initAppClient overrideEndpoint)
              = Inl (Error (''['' @ baseUrl req @ ''] Endpoint is required'')))"
proof -
  let ?endpoint = "coalesce overrideEndpoint
             (coalesce (body_endpoint (body req)) (query_endpoint (query req)))"
  obtain evs v where gv: "getCurrentVersion env req ?endpoint = (evs, v)"
    by (cases "getCurrentVersion env req ?endpoint")
  with getCurrentVersion_no_lookup [OF assms, of env req] have evs: "evs = []"
    by simp
  have "fst (getOpenAIClient env req endpointOption initAppClient overrideEndpoint) = []"
    using gv evs assms
    by (cases v) (simp_all add: getOpenAIClient_unfold getOpenAIClient_resume_def)
  moreover have "snd (getOpenAIClient env req endpointOption initAppClient overrideEndpoint)
              = Inl (Error (''['' @ baseUrl req @ ''] Endpoint is required''))"
    if "sublist ''/v'' (baseUrl req) \<or> truthy (body_version (body req))"
  proof -
    from that obtain evs' v' where "getCurrentVersion env req ?endpoint = (evs', Inr v')"
      using getCurrentVersion_returns [of req ?endpoint env] by blast
    then show ?thesis using assms
      by (simp add: getOpenAIClient_unfold getOpenAIClient_resume_def)
  qed
  ultimately show ?thesis by blast
qed

text \<open>
  C2 as stated fails when neither path nor body gives a version: for the base path
  \<open>/api/files\<close>, an empty body and no endpoint anywhere, the version resolver fails
  first and the error is its \<^verbatim>\<open>TypeError\<close>.
\<close>

theorem getOpenAIClient_without_endpoint_TypeError:
  "getOpenAIClient example_env (example_req ''/api/files'' None) None None None
     = ([], Inl (TypeError ''Cannot read properties of null (reading length)''))"
  by (simp add: example_defs helper_defs)

text \<open>With the base path \<open>/api/assistants/v1\<close> and no endpoint the error is the one of the claim.\<close>

theorem getOpenAIClient_without_endpoint_witness:
  "getOpenAIClient example_env (example_req ''/api/assistants/v1'' None) None None None
     = ([], Inl (Error ''[/api/assistants/v1] Endpoint is required''))"
proof -
  have "sublist ''/v'' ''/api/assistants/v1''"
    by (simp add: sublist_Cons_right)
  then show ?thesis
    using getOpenAIClient_without_endpoint
      [where req = "example_req ''/api/assistants/v1'' None" and overrideEndpoint = None
         and env = example_env and endpointOption = None and initAppClient = None]
    by (simp add: example_req_def example_body_def example_query_def prod_eq_iff)
qed

text \<open>
  C7, as the code has it.  For a non-empty endpoint name that is neither the direct nor
  the cloud-vendor endpoint, \<open>getOpenAIClient\<close> and \<open>fetchAssistants\<close> both return
  undefined and throw nothing: with a non-empty endpoint the version resolver always
  returns, and neither dispatch has a branch for the name.
\<close>

theorem unrecognized_endpoint_undefined:
  assumes "e \<noteq> []" and "e \<noteq> assistants env" and "e \<noteq> azureAssistants env"
  shows "(coalesce overrideEndpoint
            (coalesce (body_endpoint (body req)) (query_endpoint (query req))) = Some e
          \<longrightarrow> snd (getOpenAIClient env req endpointOption initAppClient overrideEndpoint) = Inr None)
       \<and> (query_endpoint (query req) = Some e \<longrightarrow> snd (fetchAssistants env req) = Inr None)"
proof -
  obtain evs v where gv: "getCurrentVersion env req (Some e) = (evs, Inr v)"
    using getCurrentVersion_returns [of req "Some e" env] assms(1) by auto
  show ?thesis
    using gv assms
    by (simp add: getOpenAIClient_unfold getOpenAIClient_resume_def fetchAssistants_def)
qed

text \<open>
  C7 as stated does not confine \<open>fetchAssistants\<close> to non-empty names.  For the empty
  endpoint name, which is neither of the two endpoints, the base path \<open>/api/assistants\<close>
  and an empty body, \<open>fetchAssistants\<close> throws the \<^verbatim>\<open>TypeError\<close> of the version resolver.
\<close>

theorem fetchAssistants_empty_endpoint_TypeError:
  "fetchAssistants example_env (example_req ''/api/assistants'' (Some []))
     = ([], Inl (TypeError ''Cannot read properties of null (reading length)''))"
  by (simp add: example_defs helper_defs)

text \<open>The endpoint \<open>custom\<close> on the base path \<open>/api/assistants\<close>.\<close>

theorem unrecognized_endpoint_undefined_witness:
  "snd (getOpenAIClient example_env (example_req ''/api/assistants'' (Some ''custom'')) None None None)
     = Inr None
   \<and> snd (fetchAssistants example_env (example_req ''/api/assistants'' (Some ''custom''))) = Inr None"
  using unrecognized_endpoint_undefined
    [where e = "''custom''" and env = example_env
       and req = "example_req ''/api/assistants'' (Some ''custom'')" and overrideEndpoint = None
       and endpointOption = None and initAppClient = None]
  by (simp add: example_defs)

text \<open>
  C8, as the code has it.  \<open>listAssistants\<close> hands no endpoint override to
  \<open>getOpenAIClient\<close>, so the endpoint named in the request body, and failing that in the
  query, decides.  For a non-empty name the version always resolves; when the name is
  the direct endpoint the client is the one the direct initializer returns, when it is
  the cloud-vendor endpoint the one the cloud-vendor initializer returns.  In both cases
  one list call is made on that client, with the given query, and its outcome is
  returned as it is.  The \<open>version\<close> argument plays no part.
\<close>

theorem listAssistants_client:
  assumes "coalesce (body_endpoint (body req)) (query_endpoint (query req)) = Some e"
    and "e \<noteq> []"
  shows "\<exists>evs ver. getCurrentVersion env req (Some e) = (evs, Inr ver)
      \<and> (e = assistants env \<and> initializeClient env req ver None None = Inr openai
           \<longrightarrow> listAssistants env req v q
               = (evs @ [InitializeClient ver (body_model (body req)), AssistantsList q],
                  assistants_list openai q))
      \<and> (e \<noteq> assistants env \<and> e = azureAssistants env
           \<and> initAzureClient env req ver None None = Inr openai
           \<longrightarrow> listAssistants env req v q
               = (evs @ [InitAzureClient ver (body_model (body req)), AssistantsList q],
                  assistants_list openai q))"
proof -
  obtain evs ver where gv: "getCurrentVersion env req (Some e) = (evs, Inr ver)"
    using getCurrentVersion_returns [of req "Some e" env] assms(2) by auto
  then show ?thesis
    using assms
    by (auto simp: listAssistants_def listAssistants_begin_def listAssistants_resume_def
        getOpenAIClient_begin_def getOpenAIClient_resume_def Let_def)
qed

text \<open>
  C8 as stated says the direct initializer is used whatever endpoint the request names.
  With the cloud-vendor endpoint in the query the one initializer called is the
  cloud-vendor one, and the page returned is its client's.
\<close>

theorem listAssistants_uses_azure_client:
  "listAssistants example_env (example_req ''/api/assistants/v1'' (Some ''azureAssistants''))
      ''v1'' example_list_query
     = ([InitAzureClient ''v1'' None, AssistantsList example_list_query], Inr azure_page)"
  by (simp add: example_env_def example_req_def example_body_def example_query_def helper_defs)

text \<open>Both endpoints on the base path \<open>/api/assistants/v1\<close>.\<close>

theorem listAssistants_client_witness:
  "listAssistants example_env (example_req ''/api/assistants/v1'' (Some ''assistants''))
      ''v1'' example_list_query
     = ([InitializeClient ''v1'' None, AssistantsList example_list_query], Inr direct_page)
   \<and> listAssistants example_env (example_req ''/api/assistants/v1'' (Some ''azureAssistants''))
      ''v1'' example_list_query
     = ([InitAzureClient ''v1'' None, AssistantsList example_list_query], Inr azure_page)"
proof -
  let ?d = "example_req ''/api/assistants/v1'' (Some ''assistants'')"
  let ?a = "example_req ''/api/assistants/v1'' (Some ''azureAssistants'')"
  have vd: "getCurrentVersion example_env ?d (Some ''assistants'') = ([], Inr ''v1'')"
    and va: "getCurrentVersion example_env ?a (Some ''azureAssistants'') = ([], Inr ''v1'')"
    by (simp_all add: example_req_def helper_defs)
  have "listAssistants example_env ?d ''v1'' example_list_query
     = ([InitializeClient ''v1'' None, AssistantsList example_list_query], Inr direct_page)"
    using listAssistants_client
      [where req = ?d and e = "''assistants''" and env = example_env
         and openai = "\<lparr>assistants_list = (\<lambda>q. Inr direct_page)\<rparr>"
         and v = "''v1''" and q = example_list_query]
    by (simp add: vd) (simp add: example_req_def example_env_def example_body_def example_query_def)
  moreover have "listAssistants example_env ?a ''v1'' example_list_query
     = ([InitAzureClient ''v1'' None, AssistantsList example_list_query], Inr azure_page)"
    using listAssistants_client
      [where req = ?a and e = "''azureAssistants''" and env = example_env
         and openai = "\<lparr>assistants_list = (\<lambda>q. Inr azure_page)\<rparr>"
         and v = "''v1''" and q = example_list_query]
    by (simp add: va) (simp add: example_req_def example_env_def example_body_def example_query_def)
  ultimately show ?thesis by blast
qed

text \<open>
  C9.  Every vendor list call that \<open>fetchAssistants\<close> causes, on either path, carries
  the query built from the request: limit 100 and order \<open>desc\<close> when the request leaves
  them undefined, the supplied values otherwise, and \<open>after\<close> and \<open>before\<close> as they are
  (undefined when omitted).
\<close>

theorem fetchAssistants_query_defaults:
  "\<forall>x\<in>set (fst (fetchAssistants env req)). is_AssistantsList x \<longrightarrow>
     x = AssistantsList
           \<lparr>limit = (if query_limit (query req) = JUndefined then JNum 100
                     else query_limit (query req)),
            order = (if query_order (query req) = JUndefined then JStr ''desc''
                     else query_order (query req)),
            after = query_after (query req),
            before = query_before (query req)\<rparr>"
proof -
  let ?q = "\<lparr>limit = with_default (query_limit (query req)) (JNum 100),
             order = with_default (query_order (query req)) (JStr ''desc''),
             after = query_after (query req),
             before = query_before (query req)\<rparr>"
  let ?endpoint = "query_endpoint (query req)"
  obtain evs r where gv: "getCurrentVersion env req ?endpoint = (evs, r)"
    by (cases "getCurrentVersion env req ?endpoint")
  then have evs: "\<forall>x\<in>set evs. \<not> is_AssistantsList x"
    using getCurrentVersion_events [of env req ?endpoint] by auto
  have "\<forall>x\<in>set (fst (fetchAssistants env req)). is_AssistantsList x \<longrightarrow> x = AssistantsList ?q"
  proof (cases r)
    case (Inl e)
    with gv evs show ?thesis by (simp add: fetchAssistants_def)
  next
    case (Inr ver)
    show ?thesis
    proof (cases "?endpoint = Some (assistants env)")
      case True
      obtain evs' r' where l: "listAssistants env req ver ?q = (evs', r')"
        by (cases "listAssistants env req ver ?q")
      then have "\<forall>x\<in>set evs'. is_AssistantsList x \<longrightarrow> x = AssistantsList ?q"
        using listAssistants_queries [of env req ver ?q] by simp
      with gv Inr True l evs show ?thesis
        by (cases r') (auto simp: fetchAssistants_def Let_def)
    next
      case not_direct: False
      show ?thesis
      proof (cases "?endpoint = Some (azureAssistants env)")
        case True
        obtain evs' r' where l:
          "listAssistantsForAzure env req ver (azureOpenAI req) ?q = (evs', r')"
          by (cases "listAssistantsForAzure env req ver (azureOpenAI req) ?q")
        then have "\<forall>x\<in>set evs'. is_AssistantsList x \<longrightarrow> x = AssistantsList ?q"
          using listAssistantsForAzure_queries [of env req ver "azureOpenAI req" ?q] by simp
        with gv Inr not_direct True l evs show ?thesis
          by (cases r') (auto simp: fetchAssistants_def Let_def)
      next
        case False
        with gv Inr not_direct evs show ?thesis by (simp add: fetchAssistants_def)
      qed
    qed
  qed
  then show ?thesis by (simp add: with_default_def)
qed

text \<open>A request without query parameters, and one with limit 20, order \<open>asc\<close> and a cursor.\<close>

theorem fetchAssistants_query_defaults_witness:
  "fst (fetchAssistants example_env (example_req ''/api/assistants/v1'' (Some ''assistants'')))
     = [InitializeClient ''v1'' None,
        AssistantsList \<lparr>limit = JNum 100, order = JStr ''desc'', after = JUndefined,
                         before = JUndefined\<rparr>]
   \<and> fst (fetchAssistants example_env
        ((example_req ''/api/assistants/v1'' (Some ''assistants''))
           \<lparr>query := \<lparr>query_limit = JStr ''20'', query_order = JStr ''asc'',
                       query_after = JStr ''asst_5'', query_before = JUndefined,
                       query_endpoint = Some ''assistants''\<rparr>\<rparr>))
     = [InitializeClient ''v1'' None,
        AssistantsList \<lparr>limit = JStr ''20'', order = JStr ''asc'', after = JStr ''asst_5'',
                         before = JUndefined\<rparr>]"
proof -
  let ?r1 = "example_req ''/api/assistants/v1'' (Some ''assistants'')"
  let ?r2 = "?r1\<lparr>query := \<lparr>query_limit = JStr ''20'', query_order = JStr ''asc'',
                       query_after = JStr ''asst_5'', query_before = JUndefined,
                       query_endpoint = Some ''assistants''\<rparr>\<rparr>"
  obtain q1 where 1: "fst (fetchAssistants example_env ?r1)
      = [InitializeClient ''v1'' None, AssistantsList q1]"
    by (simp add: example_defs helper_defs)
  obtain q2 where 2: "fst (fetchAssistants example_env ?r2)
      = [InitializeClient ''v1'' None, AssistantsList q2]"
    by (simp add: example_defs helper_defs)
  from fetchAssistants_query_defaults [of example_env ?r1] 1
  have "q1 = \<lparr>limit = JNum 100, order = JStr ''desc'', after = JUndefined, before = JUndefined\<rparr>"
    by (simp add: example_req_def example_query_def)
  moreover from fetchAssistants_query_defaults [of example_env ?r2] 2
  have "q2 = \<lparr>limit = JStr ''20'', order = JStr ''asc'', after = JStr ''asst_5'',
               before = JUndefined\<rparr>"
    by (simp add: example_req_def example_query_def)
  ultimately show ?thesis using 1 2 by simp
qed

section \<open>Claims about the multi-deployment lister\<close>

text \<open>
  C5.  The callback of the merge, for the result at index \<open>i\<close>, with the group and the
  model table the loop stored at \<open>i\<close>, the table having a first entry.  An assistant
  whose \<open>model\<close> is the group's own deployment name gets the first model name of the
  table; otherwise it gets the model name of the first entry whose deployment name is
  its \<open>model\<close>, and the first model name when there is no such entry.  The result is the
  assistant with its \<open>model\<close> replaced: the id and every other field are unchanged.
\<close>

theorem remap_model:
  assumes "at_index gs i = Some g" and "at_index tuples i = Some ((firstModel, c) # ms)"
  shows "remap gs tuples i a =
           Inr (a\<lparr>model :=
             if deploymentName g = Some (model a) then firstModel
             else case find (\<lambda>(m, modelConfig). config_deploymentName modelConfig = Some (model a))
                         ((firstModel, c) # ms) of
                    Some (m, modelConfig) \<Rightarrow> m
                  | None \<Rightarrow> firstModel\<rparr>)"
  using assms
  by (simp add: remap_def matching_model_find split: option.splits)

text \<open>
  The group \<open>g1\<close> with default deployment \<open>d1\<close> and the table \<open>gpt-a\<close> to \<open>d1\<close>, \<open>gpt-b\<close>
  to \<open>d2\<close>: an assistant on \<open>d1\<close>, one on \<open>d2\<close>, one on an unknown deployment.
\<close>

theorem remap_model_witness:
  "remap [group_g1] [models group_g1] 0 \<lparr>assistant_id = ''1'', model = ''d1''\<rparr>
     = Inr \<lparr>assistant_id = ''1'', model = ''gpt-a''\<rparr>
   \<and> remap [group_g1] [models group_g1] 0 \<lparr>assistant_id = ''2'', model = ''d2''\<rparr>
     = Inr \<lparr>assistant_id = ''2'', model = ''gpt-b''\<rparr>
   \<and> remap [group_g1] [models group_g1] 0 \<lparr>assistant_id = ''3'', model = ''d9''\<rparr>
     = Inr \<lparr>assistant_id = ''3'', model = ''gpt-a''\<rparr>"
proof -
  have g: "at_index [group_g1] 0 = Some group_g1"
    and t: "at_index [models group_g1] 0 =
      Some ((''gpt-a'', \<lparr>config_deploymentName = Some ''d1''\<rparr>) #
            [(''gpt-b'', \<lparr>config_deploymentName = Some ''d2''\<rparr>)])"
    by (simp_all add: at_index_def group_g1_def)
  show ?thesis
    using remap_model [OF g t, of "\<lparr>assistant_id = ''1'', model = ''d1''\<rparr>"]
      remap_model [OF g t, of "\<lparr>assistant_id = ''2'', model = ''d2''\<rparr>"]
      remap_model [OF g t, of "\<lparr>assistant_id = ''3'', model = ''d9''\<rparr>"]
    by (simp add: group_g1_def)
qed



text \<open>
  C6.  Every envelope the lister returns has \<open>object\<close> \<open>list\<close> and \<open>has_more\<close> false, and
  when \<open>data\<close> is not empty \<open>first_id\<close> and \<open>last_id\<close> are the ids of its first and last
  record.  The scenario: the single group \<open>g1\<close> with default deployment \<open>d1\<close> and models
  \<open>gpt-a\<close> to \<open>d1\<close>, \<open>gpt-b\<close> to \<open>d2\<close>, the vendor returning one assistant with id \<open>1\<close> on
  \<open>d2\<close>; the output is the envelope with that assistant remapped to \<open>gpt-b\<close>.
\<close>

theorem listAssistantsForAzure_envelope:
  "(listAssistantsForAzure env req v azureConfig q = (evs, Inr r) \<longrightarrow>
      object r = ''list'' \<and> \<not> has_more r \<and>
      (data r \<noteq> [] \<longrightarrow> first_id r = Some (assistant_id (hd (data r))) \<and>
                        last_id r = Some (assistant_id (last (data r)))))
   \<and> listAssistantsForAzure example_env
        (example_req ''/api/assistants/v1'' (Some ''azureAssistants'')) v' (Some config_g1) q'
      = ([InitAzureClient ''v1'' (Some ''gpt-a''), AssistantsList q'],
         Inr \<lparr>first_id = Some ''1'', last_id = Some ''1'', object = ''list'', has_more = False,
              data = [\<lparr>assistant_id = ''1'', model = ''gpt-b''\<rparr>]\<rparr>)"
proof (intro conjI impI)
  assume run: "listAssistantsForAzure env req v azureConfig q = (evs, Inr r)"
  then obtain config where "azureConfig = Some config"
    by (cases azureConfig) (simp_all add: listAssistantsForAzure_def)
  with run obtain d where r: "r = list_envelope d"
    using listAssistantsForAzure_Inr by blast
  show "object r = ''list''" and "\<not> has_more r"
    by (simp_all add: r list_envelope_simps)
  assume "data r \<noteq> []"
  then show "first_id r = Some (assistant_id (hd (data r)))"
    and "last_id r = Some (assistant_id (last (data r)))"
    by (simp_all add: r list_envelope_simps)
next
  show "listAssistantsForAzure example_env
        (example_req ''/api/assistants/v1'' (Some ''azureAssistants'')) v' (Some config_g1) q'
      = ([InitAzureClient ''v1'' (Some ''gpt-a''), AssistantsList q'],
         Inr \<lparr>first_id = Some ''1'', last_id = Some ''1'', object = ''list'', has_more = False,
              data = [\<lparr>assistant_id = ''1'', model = ''gpt-b''\<rparr>]\<rparr>)"
    by (simp add: example_defs helper_defs)
qed

text \<open>The envelope for the two groups \<open>g1\<close> and \<open>g2\<close>.\<close>

theorem listAssistantsForAzure_envelope_witness:
  "\<exists>r. snd (listAssistantsForAzure example_env
               (example_req ''/api/assistants/v1'' (Some ''azureAssistants''))
               ''v1'' (Some config_g1_g2) example_list_query) = Inr r
      \<and> data r = [\<lparr>assistant_id = ''1'', model = ''gpt-b''\<rparr>,
                   \<lparr>assistant_id = ''1'', model = ''gpt-c''\<rparr>]
      \<and> object r = ''list'' \<and> \<not> has_more r
      \<and> first_id r = Some ''1'' \<and> last_id r = Some ''1''"
proof -
  obtain evs r where run: "listAssistantsForAzure example_env
      (example_req ''/api/assistants/v1'' (Some ''azureAssistants''))
      ''v1'' (Some config_g1_g2) example_list_query = (evs, Inr r)"
    and d: "data r = [\<lparr>assistant_id = ''1'', model = ''gpt-b''\<rparr>,
                      \<lparr>assistant_id = ''1'', model = ''gpt-c''\<rparr>]"
    by (simp add: example_defs helper_defs)
  from listAssistantsForAzure_envelope
    [where env = example_env and v = "''v1''" and azureConfig = "Some config_g1_g2"
       and req = "example_req ''/api/assistants/v1'' (Some ''azureAssistants'')"
       and q = example_list_query and evs = evs and r = r] run d
  have "object r = ''list'' \<and> \<not> has_more r \<and> first_id r = Some ''1'' \<and> last_id r = Some ''1''"
    by simp
  with run d show ?thesis by simp
qed

text \<open>
  C10.  With no group configured the lister returns the empty envelope at once.  When
  the groups are well formed and every call resolves to a page without records, it
  returns the empty envelope and throws nothing.  And any envelope it returns with empty
  \<open>data\<close> has \<open>first_id\<close> and \<open>last_id\<close> undefined, \<open>object\<close> \<open>list\<close> and \<open>has_more\<close> false.
\<close>

theorem listAssistantsForAzure_empty:
  "(assistantGroups config = [] \<longrightarrow>
      listAssistantsForAzure env req v (Some config) q
        = ([], Inr \<lparr>first_id = None, last_id = None, object = ''list'', has_more = False,
                   data = []\<rparr>))
   \<and> (for_assistantGroups env (groupMap config) (assistantGroups config) req
         \<lparr>groups = [], groupModelTuples = [], promises = []\<rparr> = (evs1, Inr (req', f))
       \<and> snd (Promise_all env req' q (promises f)) = Inr ress
       \<and> (\<forall>res\<in>set ress. page_data res = [])
      \<longrightarrow> snd (listAssistantsForAzure env req v (Some config) q)
        = Inr \<lparr>first_id = None, last_id = None, object = ''list'', has_more = False,
               data = []\<rparr>)
   \<and> (listAssistantsForAzure env req v azureConfig q = (evs, Inr r) \<and> data r = []
      \<longrightarrow> first_id r = None \<and> last_id r = None \<and> object r = ''list'' \<and> \<not> has_more r)"
proof (intro conjI impI)
  assume "assistantGroups config = []"
  then show "listAssistantsForAzure env req v (Some config) q
        = ([], Inr \<lparr>first_id = None, last_id = None, object = ''list'', has_more = False,
                   data = []\<rparr>)"
    by (simp add: listAssistantsForAzure_def list_envelope_def Promise_all_Nil)
next
  assume a: "for_assistantGroups env (groupMap config) (assistantGroups config) req
         \<lparr>groups = [], groupModelTuples = [], promises = []\<rparr> = (evs1, Inr (req', f))
       \<and> snd (Promise_all env req' q (promises f)) = Inr ress
       \<and> (\<forall>res\<in>set ress. page_data res = [])"
  then obtain evs2 where all: "Promise_all env req' q (promises f) = (evs2, Inr ress)"
    by (cases "Promise_all env req' q (promises f)") simp
  from a have "flatMap_from
       (\<lambda>res i. map_throwing (remap (groups f) (groupModelTuples f) i) (page_data res))
       ress 0 = Inr []"
    using flatMap_from_empty_pages [of ress page_data] by blast
  with a all show "snd (listAssistantsForAzure env req v (Some config) q)
        = Inr \<lparr>first_id = None, last_id = None, object = ''list'', has_more = False,
               data = []\<rparr>"
    by (simp add: listAssistantsForAzure_def list_envelope_def)
next
  assume a: "listAssistantsForAzure env req v azureConfig q = (evs, Inr r) \<and> data r = []"
  then obtain config where "azureConfig = Some config"
    by (cases azureConfig) (simp_all add: listAssistantsForAzure_def)
  with a obtain d where r: "r = list_envelope d"
    using listAssistantsForAzure_Inr by blast
  with a have "d = []"
    by (simp add: list_envelope_simps)
  then show "first_id r = None" and "last_id r = None" and "object r = ''list''"
    and "\<not> has_more r"
    by (simp_all add: r list_envelope_simps)
qed

text \<open>A configuration without groups, and two groups over a vendor that returns empty pages.\<close>

theorem listAssistantsForAzure_empty_witness:
  "listAssistantsForAzure example_env (example_req ''/api/assistants/v1'' (Some ''azureAssistants''))
      ''v1'' (Some config_no_groups) example_list_query
     = ([], Inr \<lparr>first_id = None, last_id = None, object = ''list'', has_more = False,
                data = []\<rparr>)
   \<and> snd (listAssistantsForAzure empty_page_env
        (example_req ''/api/assistants/v1'' (Some ''azureAssistants''))
        ''v1'' (Some config_g1_g2) example_list_query)
     = Inr \<lparr>first_id = None, last_id = None, object = ''list'', has_more = False,
            data = []\<rparr>"
proof -
  let ?req = "example_req ''/api/assistants/v1'' (Some ''azureAssistants'')"
  let ?p = "(Some ''azureAssistants'', Inr ''v1'') :: pending"
  let ?empty = "\<lparr>page_data = [], page_body = None\<rparr> :: unit page"
  have 1: "assistantGroups config_no_groups = []"
    by (simp add: config_no_groups_def)
  have 2: "for_assistantGroups empty_page_env (groupMap config_g1_g2)
       (assistantGroups config_g1_g2) ?req
       \<lparr>groups = [], groupModelTuples = [], promises = []\<rparr>
     = ([], Inr (?req\<lparr>body := example_body\<lparr>body_model := Some ''gpt-c''\<rparr>\<rparr>,
          \<lparr>groups = [group_g1, group_g2],
           groupModelTuples = [models group_g1, models group_g2],
           promises = [?p, ?p]\<rparr>))"
    by (simp add: example_defs helper_defs)
  have 3: "snd (Promise_all empty_page_env
         (?req\<lparr>body := example_body\<lparr>body_model := Some ''gpt-c''\<rparr>\<rparr>)
         example_list_query
         (promises \<lparr>groups = [group_g1, group_g2],
                    groupModelTuples = [models group_g1, models group_g2],
                    promises = [?p, ?p]\<rparr>)) = Inr [?empty, ?empty]"
    by (simp add: example_defs helper_defs)
  have 4: "\<forall>res\<in>set [?empty, ?empty]. page_data res = []"
    by simp
  from listAssistantsForAzure_empty
    [where config = config_no_groups and env = example_env and req = ?req and v = "''v1''"
       and q = example_list_query] 1
  have a: "listAssistantsForAzure example_env ?req ''v1'' (Some config_no_groups) example_list_query
     = ([], Inr \<lparr>first_id = None, last_id = None, object = ''list'', has_more = False,
                data = []\<rparr>)"
    by blast
  have b: "snd (listAssistantsForAzure empty_page_env ?req ''v1'' (Some config_g1_g2)
                  example_list_query)
     = Inr \<lparr>first_id = None, last_id = None, object = ''list'', has_more = False,
            data = []\<rparr>"
    by (rule listAssistantsForAzure_empty [THEN conjunct2, THEN conjunct1, rule_format,
          OF conjI [OF 2 conjI [OF 3 4]]])
  from a b show ?thesis by simp
qed

end
